theory Spec2Isabelle
  imports Main "HOL-Library.Word" "HOL-Library.AList"
begin

unbundle bit_operations_syntax

section \<open>Errors\<close>

text \<open>
  Every Go \<^verbatim>\<open>error\<close> value the modelled functions can return.  \<open>ErrGitProtected\<close> is the
  \<^verbatim>\<open>AppError\<close> with code \<^verbatim>\<open>GIT_PROTECTED\<close> built by \<^verbatim>\<open>NewError(ErrGitProtected, nil)\<close>;
  the others stand for errors of the operating system and of the Go library, or for the
  \<^verbatim>\<open>fmt.Errorf\<close> messages of the source.  \<open>ErrPanic\<close> stands for a panic of the
  library, which ends the call without a result.
\<close>

datatype error =
    ErrGetwd
  | ErrIO
  | ErrRel
  | ErrGitProtected
  | ErrGit
  | ErrNotARepo
  | ErrRepoProtected string
  | ErrPush
  | ErrAccountExists string
  | ErrAccountNotFound string
  | ErrEncrypt error
  | ErrRand
  | ErrKeySize
  | ErrBase64
  | ErrTooShort
  | ErrSyntax
  | ErrRange
  | ErrDuration
  | ErrOpen
  | ErrPanic

section \<open>Go library: strings and path/filepath (Unix)\<close>

text \<open>
  A Go string is a sequence of bytes, and so is an Isabelle \<open>string\<close>.
  \<open>splitSlash s\<close> is \<^verbatim>\<open>strings.Split(s, "/")\<close> and \<open>joinSlash\<close> is
  \<^verbatim>\<open>strings.Join(elems, "/")\<close>.
\<close>

fun splitSlash :: "string \<Rightarrow> string list" where
  "splitSlash [] = [[]]"
| "splitSlash (c # cs) =
     (if c = CHR ''/'' then [] # splitSlash cs
      else (case splitSlash cs of [] \<Rightarrow> [[c]] | p # ps \<Rightarrow> (c # p) # ps))"

fun joinSlash :: "string list \<Rightarrow> string" where
  "joinSlash [] = []"
| "joinSlash [p] = p"
| "joinSlash (p # q # ps) = p @ ''/'' @ joinSlash (q # ps)"

definition IsAbs :: "string \<Rightarrow> bool" where
  "IsAbs path = (case path of [] \<Rightarrow> False | c # _ \<Rightarrow> c = CHR ''/'')"

text \<open>
  \<^verbatim>\<open>filepath.Clean\<close>: empty elements and \<^verbatim>\<open>.\<close> are dropped, an inner \<^verbatim>\<open>..\<close> removes the
  element before it, a \<^verbatim>\<open>..\<close> at the root of a rooted path is dropped, leading \<^verbatim>\<open>..\<close>
  of a relative path are kept; the empty result is \<^verbatim>\<open>.\<close> (or \<^verbatim>\<open>/\<close> when rooted).
  \<open>cleanElems rooted out es\<close> processes the elements \<open>es\<close> with the output written so
  far in \<open>out\<close>, last element first.
\<close>

fun cleanElems :: "bool \<Rightarrow> string list \<Rightarrow> string list \<Rightarrow> string list" where
  "cleanElems rooted out [] = rev out"
| "cleanElems rooted out (e # es) =
     (if e = [] \<or> e = ''.'' then cleanElems rooted out es
      else if e = ''..'' then
        (case out of
           [] \<Rightarrow> if rooted then cleanElems rooted [] es else cleanElems rooted [''..''] es
         | t # ts \<Rightarrow> if t = ''..'' then cleanElems rooted (''..'' # out) es
                     else cleanElems rooted ts es)
      else cleanElems rooted (e # out) es)"

definition Clean :: "string \<Rightarrow> string" where
  "Clean path =
     (if path = [] then ''.''
      else let rooted = IsAbs path;
               out = cleanElems rooted [] (splitSlash path)
           in if rooted then CHR ''/'' # joinSlash out
              else if out = [] then ''.'' else joinSlash out)"

text \<open>\<^verbatim>\<open>filepath.Join(a, b)\<close>: the first non-empty element onwards, joined and cleaned.\<close>

definition Join2 :: "string \<Rightarrow> string \<Rightarrow> string" where
  "Join2 a b =
     (if a \<noteq> [] then Clean (a @ ''/'' @ b)
      else if b \<noteq> [] then Clean b
      else [])"

text \<open>
  \<^verbatim>\<open>filepath.Abs(path)\<close>; \<open>wd\<close> is what \<^verbatim>\<open>os.Getwd()\<close> returns, the only way \<^verbatim>\<open>Abs\<close>
  can fail.
\<close>

definition Abs :: "error + string \<Rightarrow> string \<Rightarrow> error + string" where
  "Abs wd path =
     (if IsAbs path then Inr (Clean path)
      else (case wd of Inl e \<Rightarrow> Inl e | Inr d \<Rightarrow> Inr (Join2 d path)))"

text \<open>
  \<^verbatim>\<open>filepath.Rel(basepath, targpath)\<close>.  The library walks both cleaned paths element
  by element up to the first pair that differs; a separator that ends the string starts
  no further element (\<open>elems\<close>).  What is left of the base costs one \<^verbatim>\<open>..\<close> per
  element, followed by what is left of the target; the result is cleaned, as the
  library documents (\<^verbatim>\<open>Rel calls Clean on the result\<close>), which matters for a relative
  target \<^verbatim>\<open>.\<close> only.
\<close>

definition elems :: "string \<Rightarrow> string list" where
  "elems s = (let xs = splitSlash s in if last xs = [] then butlast xs else xs)"

fun dropCommon :: "string list \<Rightarrow> string list \<Rightarrow> string list \<times> string list" where
  "dropCommon (b # bs) (t # ts) =
     (if b = t then dropCommon bs ts else (b # bs, t # ts))"
| "dropCommon bs ts = (bs, ts)"

definition Rel :: "string \<Rightarrow> string \<Rightarrow> error + string" where
  "Rel basepath targpath =
     (let base = Clean basepath; targ = Clean targpath in
      if targ = base then Inr ''.''
      else
        let base' = (if base = ''.'' then [] else base) in
        if IsAbs base' \<noteq> IsAbs targ then Inl ErrRel
        else (case dropCommon (elems base') (elems targ) of
                (brest, trest) \<Rightarrow>
                  if brest \<noteq> [] \<and> trest \<noteq> [] \<and> hd brest = ''..'' then Inl ErrRel
                  else if brest \<noteq> []
                    then Inr (Clean (joinSlash (replicate (length brest) ''..'' @ trest)))
                  else Inr (Clean (joinSlash trest))))"

section \<open>Go library: strconv and strings\<close>

text \<open>\<^verbatim>\<open>strings.HasSuffix\<close> and \<^verbatim>\<open>strings.TrimSuffix\<close>.\<close>

definition HasSuffix :: "string \<Rightarrow> string \<Rightarrow> bool" where
  "HasSuffix s suffix =
     (length suffix \<le> length s \<and> drop (length s - length suffix) s = suffix)"

definition TrimSuffix :: "string \<Rightarrow> string \<Rightarrow> string" where
  "TrimSuffix s suffix =
     (if HasSuffix s suffix then take (length s - length suffix) s else s)"

text \<open>
  \<^verbatim>\<open>strconv.ParseUint(s, 10, 64)\<close> after its test for the empty string: the digits are
  read left to right; a byte that is no digit is a syntax error (value 0), a value beyond
  \<^verbatim>\<open>uint64\<close> a range error (value \<^verbatim>\<open>MaxUint64\<close>), detected in that order.
\<close>

definition isDigit :: "char \<Rightarrow> bool" where
  "isDigit c = (48 \<le> (of_char c :: nat) \<and> (of_char c :: nat) \<le> 57)"

definition maxUint64 :: nat where
  "maxUint64 = 18446744073709551615"

fun parseUintLoop :: "nat \<Rightarrow> string \<Rightarrow> nat \<times> error option" where
  "parseUintLoop n [] = (n, None)"
| "parseUintLoop n (c # cs) =
     (if \<not> isDigit c then (0, Some ErrSyntax)
      else if n \<ge> maxUint64 div 10 + 1 then (maxUint64, Some ErrRange)
      else let n1 = n * 10 + ((of_char c :: nat) - 48) in
           if n1 > maxUint64 then (maxUint64, Some ErrRange)
           else parseUintLoop n1 cs)"

definition ParseUint :: "string \<Rightarrow> nat \<times> error option" where
  "ParseUint s = (if s = [] then (0, Some ErrSyntax) else parseUintLoop 0 s)"

text \<open>
  \<^verbatim>\<open>strconv.ParseInt(s, 10, 64)\<close>, which is also \<^verbatim>\<open>strconv.Atoi(s)\<close> where \<^verbatim>\<open>int\<close> has
  64 bits: the value and the error.  The callers in this repository drop the error and
  keep the value.
\<close>

definition ParseInt :: "string \<Rightarrow> int \<times> error option" where
  "ParseInt s =
     (case s of
        [] \<Rightarrow> (0, Some ErrSyntax)
      | c # cs \<Rightarrow>
          let neg = (c = CHR ''-'');
              digits = (if c = CHR ''+'' \<or> c = CHR ''-'' then cs else s)
          in (case ParseUint digits of
                (un, err) \<Rightarrow>
                  if err = Some ErrSyntax then (0, err)
                  else if \<not> neg \<and> un \<ge> 2 ^ 63 then (2 ^ 63 - 1, Some ErrRange)
                  else if neg \<and> un > 2 ^ 63 then (- (2 ^ 63), Some ErrRange)
                  else (if neg then - int un else int un, None)))"

definition Atoi :: "string \<Rightarrow> int \<times> error option" where
  "Atoi s = ParseInt s"

text \<open>\<^verbatim>\<open>strconv.Itoa\<close> and the verb \<^verbatim>\<open>%d\<close> of \<^verbatim>\<open>fmt.Sprintf\<close>.\<close>

fun natDigits :: "nat \<Rightarrow> string" where
  "natDigits n =
     (if n < 10 then [''0123456789'' ! n]
      else natDigits (n div 10) @ [''0123456789'' ! (n mod 10)])"

definition Itoa :: "int \<Rightarrow> string" where
  "Itoa i = (if i < 0 then CHR ''-'' # natDigits (nat (- i)) else natDigits (nat i))"

text \<open>
  Library functions whose tables are not part of this repository are parameters of the
  model: the Unicode-aware \<^verbatim>\<open>strings.ToUpper\<close> and \<^verbatim>\<open>strings.TrimSpace\<close>,
  \<^verbatim>\<open>time.ParseDuration\<close> (nanoseconds or an error), \<^verbatim>\<open>Duration.String\<close>, the verb
  \<^verbatim>\<open>%.1f\<close> applied to \<^verbatim>\<open>float64(a)/b\<close>, \<^verbatim>\<open>sha256.Sum256\<close>, and the two halves
  of AES-GCM: the counter-mode key stream (its byte at a position, for a key and a nonce)
  and the 128-bit authentication tag of a ciphertext.
\<close>

record golib =
  ToUpper :: "string \<Rightarrow> string"
  TrimSpace :: "string \<Rightarrow> string"
  ParseDuration :: "string \<Rightarrow> error + int"
  DurationString :: "int \<Rightarrow> string"
  FormatQuotient :: "int \<Rightarrow> int \<Rightarrow> string"
  Sum256 :: "string \<Rightarrow> string"
  keyStream :: "string \<Rightarrow> 8 word list \<Rightarrow> nat \<Rightarrow> 8 word"
  gcmTag :: "string \<Rightarrow> 8 word list \<Rightarrow> 8 word list \<Rightarrow> 128 word"

section \<open>Secret cipher (internal/core, account manager file)\<close>

subsection \<open>Go library: encoding/base64, StdEncoding\<close>

definition encodeStd :: string where
  "encodeStd = ''ABCDEFGHIJKLMNOPQRSTUVWXYZabcdefghijklmnopqrstuvwxyz0123456789+/''"

definition padChar :: char where
  "padChar = CHR ''=''"

definition enc64 :: "nat \<Rightarrow> char" where
  "enc64 v = encodeStd ! (v mod 64)"

text \<open>
  \<^verbatim>\<open>EncodeToString\<close>: three bytes make the 24-bit value
  \<^verbatim>\<open>src[0]<<16 | src[1]<<8 | src[2]\<close> (\<open>pack3\<close>) and four characters, each chosen by
  six bits of it; a remainder of one or two bytes is padded with \<^verbatim>\<open>=\<close>.
\<close>

definition pack3 :: "8 word \<Rightarrow> 8 word \<Rightarrow> 8 word \<Rightarrow> nat" where
  "pack3 a b c = unat a * 65536 + unat b * 256 + unat c"

fun b64Encode :: "8 word list \<Rightarrow> string" where
  "b64Encode [] = []"
| "b64Encode [a] =
     [enc64 (pack3 a 0 0 div 262144), enc64 (pack3 a 0 0 div 4096), padChar, padChar]"
| "b64Encode [a, b] =
     [enc64 (pack3 a b 0 div 262144), enc64 (pack3 a b 0 div 4096),
      enc64 (pack3 a b 0 div 64), padChar]"
| "b64Encode (a # b # c # rest) =
     [enc64 (pack3 a b c div 262144), enc64 (pack3 a b c div 4096),
      enc64 (pack3 a b c div 64), enc64 (pack3 a b c)]
     @ b64Encode rest"

text \<open>
  The decoder's table \<^verbatim>\<open>decodeMap\<close> sends a character of the alphabet to its index and
  every other byte to \<^verbatim>\<open>0xff\<close> (\<open>None\<close>).
\<close>

fun indexOf :: "char \<Rightarrow> string \<Rightarrow> nat" where
  "indexOf c [] = 0"
| "indexOf c (x # xs) = (if c = x then 0 else Suc (indexOf c xs))"

definition decodeMap :: "char \<Rightarrow> nat option" where
  "decodeMap c = (let i = indexOf c encodeStd in if i < 64 then Some i else None)"

text \<open>
  \<^verbatim>\<open>DecodeString\<close> skips carriage returns and line feeds wherever they stand, so
  \<open>b64Quanta\<close> works on the input without them.  Each quantum is four characters,
  whose values make \<^verbatim>\<open>dbuf[0]<<18 | dbuf[1]<<12 | dbuf[2]<<6 | dbuf[3]\<close> (\<open>unpack4\<close>,
  with 0 for a padded place) and up to three bytes of it; padding is accepted in the last
  quantum only, as \<^verbatim>\<open>xx==\<close> or \<^verbatim>\<open>xxx=\<close>; anything else is \<^verbatim>\<open>CorruptInputError\<close>.
\<close>

definition unpack4 :: "nat \<Rightarrow> nat \<Rightarrow> nat \<Rightarrow> nat \<Rightarrow> nat" where
  "unpack4 v0 v1 v2 v3 = v0 * 262144 + v1 * 4096 + v2 * 64 + v3"

fun b64Quanta :: "string \<Rightarrow> error + 8 word list" where
  "b64Quanta [] = Inr []"
| "b64Quanta [c0] = Inl ErrBase64"
| "b64Quanta [c0, c1] = Inl ErrBase64"
| "b64Quanta [c0, c1, c2] = Inl ErrBase64"
| "b64Quanta (c0 # c1 # c2 # c3 # rest) =
     (case (decodeMap c0, decodeMap c1) of
        (Some v0, Some v1) \<Rightarrow>
          if c2 = padChar then
            (if c3 = padChar \<and> rest = []
             then Inr [of_nat (unpack4 v0 v1 0 0 div 65536)]
             else Inl ErrBase64)
          else
            (case decodeMap c2 of
               None \<Rightarrow> Inl ErrBase64
             | Some v2 \<Rightarrow>
                 if c3 = padChar then
                   (if rest = []
                    then Inr [of_nat (unpack4 v0 v1 v2 0 div 65536),
                              of_nat (unpack4 v0 v1 v2 0 div 256)]
                    else Inl ErrBase64)
                 else
                   (case decodeMap c3 of
                      None \<Rightarrow> Inl ErrBase64
                    | Some v3 \<Rightarrow>
                        (case b64Quanta rest of
                           Inl e \<Rightarrow> Inl e
                         | Inr bs \<Rightarrow>
                             Inr (of_nat (unpack4 v0 v1 v2 v3 div 65536)
                                  # of_nat (unpack4 v0 v1 v2 v3 div 256)
                                  # of_nat (unpack4 v0 v1 v2 v3)
                                  # bs))))
      | _ \<Rightarrow> Inl ErrBase64)"

definition b64Decode :: "string \<Rightarrow> error + 8 word list" where
  "b64Decode s = b64Quanta (filter (\<lambda>c. c \<noteq> CHR 0x0A \<and> c \<noteq> CHR 0x0D) s)"

subsection \<open>Go library: crypto/aes and crypto/cipher (GCM)\<close>

text \<open>
  \<^verbatim>\<open>aes.NewCipher\<close> accepts keys of 16, 24 and 32 bytes.  \<^verbatim>\<open>gcm.Seal(nonce, nonce, p, nil)\<close>
  appends to the nonce the plaintext xor-ed with the key stream, then the 16-byte tag of
  that ciphertext; it panics on a plaintext of more than \<open>gcmMaxPlaintext\<close> bytes.
  \<^verbatim>\<open>gcm.Open\<close> recomputes the tag and compares it before it decrypts.
\<close>

definition NewCipher :: "string \<Rightarrow> error + string" where
  "NewCipher key =
     (if length key = 16 \<or> length key = 24 \<or> length key = 32 then Inr key
      else Inl ErrKeySize)"

definition gcmNonceSize :: nat where
  "gcmNonceSize = 12"

definition gcmTagSize :: nat where
  "gcmTagSize = 16"

definition gcmMaxPlaintext :: nat where
  "gcmMaxPlaintext = (2 ^ 32 - 2) * 16"

definition xorKeyStream :: "golib \<Rightarrow> string \<Rightarrow> 8 word list \<Rightarrow> 8 word list \<Rightarrow> 8 word list" where
  "xorKeyStream lib key nonce bs =
     map (\<lambda>(i, b). b XOR keyStream lib key nonce i) (enumerate 0 bs)"

definition tagBytes :: "128 word \<Rightarrow> 8 word list" where
  "tagBytes t = map (\<lambda>i. ucast (drop_bit (8 * (15 - i)) t)) [0..<gcmTagSize]"

definition gcmSeal :: "golib \<Rightarrow> string \<Rightarrow> 8 word list \<Rightarrow> 8 word list \<Rightarrow> error + 8 word list" where
  "gcmSeal lib key nonce plaintext =
     (if length plaintext > gcmMaxPlaintext then Inl ErrPanic
      else let ct = xorKeyStream lib key nonce plaintext
           in Inr (nonce @ ct @ tagBytes (gcmTag lib key nonce ct)))"

definition gcmOpen :: "golib \<Rightarrow> string \<Rightarrow> 8 word list \<Rightarrow> 8 word list \<Rightarrow> error + 8 word list" where
  "gcmOpen lib key nonce ciphertext =
     (if length ciphertext < gcmTagSize then Inl ErrOpen
      else if length ciphertext > gcmMaxPlaintext + gcmTagSize then Inl ErrOpen
      else
        let ct = take (length ciphertext - gcmTagSize) ciphertext;
            tag = drop (length ciphertext - gcmTagSize) ciphertext
        in if tagBytes (gcmTag lib key nonce ct) \<noteq> tag then Inl ErrOpen
           else Inr (xorKeyStream lib key nonce ct))"

subsection \<open>The cipher\<close>

text \<open>
  The machine: what \<^verbatim>\<open>os.Hostname\<close> and \<^verbatim>\<open>os.UserHomeDir\<close> return (their errors are
  dropped by \<^verbatim>\<open>encryptionKey\<close>).  The entropy source \<^verbatim>\<open>rand.Reader\<close> either fails or
  delivers bytes; \<^verbatim>\<open>io.ReadFull\<close> takes as many as the buffer holds.
\<close>

record machine =
  hostname :: string
  homeDir :: string

text \<open>The conversions \<^verbatim>\<open>[]byte(s)\<close> and \<^verbatim>\<open>string(b)\<close>, byte by byte.\<close>

definition byteOfChar :: "char \<Rightarrow> 8 word" where
  "byteOfChar c = of_nat (of_char c)"

definition charOfByte :: "8 word \<Rightarrow> char" where
  "charOfByte b = char_of (unat b)"

type_synonym entropy = "error + (nat \<Rightarrow> 8 word)"

definition ReadFull :: "entropy \<Rightarrow> nat \<Rightarrow> error + 8 word list" where
  "ReadFull src n = (case src of Inl e \<Rightarrow> Inl e | Inr f \<Rightarrow> Inr (map f [0..<n]))"

definition encryptionKey :: "golib \<Rightarrow> machine \<Rightarrow> string" where
  "encryptionKey lib m = Sum256 lib (hostname m @ homeDir m @ ''arngit-secret-sauce'')"

definition encrypt :: "golib \<Rightarrow> machine \<Rightarrow> entropy \<Rightarrow> string \<Rightarrow> error + string" where
  "encrypt lib m src plaintext =
     (case NewCipher (encryptionKey lib m) of
        Inl e \<Rightarrow> Inl e
      | Inr block \<Rightarrow>
          (case ReadFull src gcmNonceSize of
             Inl e \<Rightarrow> Inl e
           | Inr nonce \<Rightarrow>
               (case gcmSeal lib block nonce (map byteOfChar plaintext) of
                  Inl e \<Rightarrow> Inl e
                | Inr ciphertext \<Rightarrow> Inr (b64Encode ciphertext))))"

definition decrypt :: "golib \<Rightarrow> machine \<Rightarrow> string \<Rightarrow> error + string" where
  "decrypt lib m ciphertext =
     (case b64Decode ciphertext of
        Inl e \<Rightarrow> Inl e
      | Inr data \<Rightarrow>
          (case NewCipher (encryptionKey lib m) of
             Inl e \<Rightarrow> Inl e
           | Inr block \<Rightarrow>
               if length data < gcmNonceSize then Inl ErrTooShort
               else (case gcmOpen lib block (take gcmNonceSize data) (drop gcmNonceSize data) of
                       Inl e \<Rightarrow> Inl e
                     | Inr plaintext \<Rightarrow> Inr (map charOfByte plaintext))))"

section \<open>Credential vault (internal/core, account manager file)\<close>

record Account =
  Name :: string
  Username :: string
  Email :: string
  PAT :: string
  IsDefault :: bool
  CreatedAt :: int
  UpdatedAt :: int

text \<open>
  \<^verbatim>\<open>AccountManager\<close>: the map \<^verbatim>\<open>accounts\<close> as an association list with one entry per
  name, and the name of the current account.  The account files themselves are not
  modelled, only whether writing and deleting them succeeds.
\<close>

record AccountManager =
  dir :: string
  accounts :: "(string \<times> Account) list"
  current :: string

text \<open>
  What the system answers during one call: the entropy for the nonce, the results of
  \<^verbatim>\<open>os.WriteFile\<close> and \<^verbatim>\<open>os.Remove\<close>, the two readings of the clock in \<^verbatim>\<open>Add\<close>, and
  \<open>rangeFirst\<close>, which decides the entry that \<^verbatim>\<open>for n := range am.accounts\<close> yields
  first (Go leaves the order of a map iteration unspecified).
\<close>

record vaultSys =
  vaultEntropy :: entropy
  writeResult :: "error option"
  removeResult :: "error option"
  createdNow :: int
  updatedNow :: int
  rangeFirst :: nat

definition Add ::
  "golib \<Rightarrow> machine \<Rightarrow> vaultSys \<Rightarrow> AccountManager \<Rightarrow> string \<Rightarrow> string \<Rightarrow> string \<Rightarrow> string
     \<Rightarrow> AccountManager \<times> error option" where
  "Add lib m s am name username email pat =
     (if map_of (accounts am) name \<noteq> None then (am, Some (ErrAccountExists name))
      else (case encrypt lib m (vaultEntropy s) (TrimSpace lib pat) of
              Inl e \<Rightarrow> (am, Some (ErrEncrypt e))
            | Inr encryptedPAT \<Rightarrow>
                let acc = \<lparr>Name = name, Username = username, Email = email,
                           PAT = encryptedPAT, IsDefault = (length (accounts am) = 0),
                           CreatedAt = createdNow s, UpdatedAt = updatedNow s\<rparr>
                in (case writeResult s of
                      Some e \<Rightarrow> (am, Some e)
                    | None \<Rightarrow>
                        (am\<lparr>accounts := AList.update name acc (accounts am),
                            current := (if IsDefault acc then name else current am)\<rparr>,
                         None))))"

definition Remove ::
  "vaultSys \<Rightarrow> AccountManager \<Rightarrow> string \<Rightarrow> AccountManager \<times> error option" where
  "Remove s am name =
     (if map_of (accounts am) name = None then (am, Some (ErrAccountNotFound name))
      else (case removeResult s of
              Some e \<Rightarrow> (am, Some e)
            | None \<Rightarrow>
                let accs = AList.delete name (accounts am)
                in (am\<lparr>accounts := accs,
                       current :=
                         (if current am = name
                          then (if accs = [] then []
                                else fst (accs ! (rangeFirst s mod length accs)))
                          else current am)\<rparr>,
                    None)))"

definition Switch ::
  "vaultSys \<Rightarrow> AccountManager \<Rightarrow> string \<Rightarrow> AccountManager \<times> error option" where
  "Switch s am name =
     (if map_of (accounts am) name = None then (am, Some (ErrAccountNotFound name))
      else (am\<lparr>accounts := map (\<lambda>(n, acc). (n, acc\<lparr>IsDefault := (n = name)\<rparr>)) (accounts am),
               current := name\<rparr>,
            None))"

text \<open>The number of identities whose is-active flag (\<^verbatim>\<open>IsDefault\<close>) is set.\<close>

definition activeCount :: "AccountManager \<Rightarrow> nat" where
  "activeCount am = length (filter (\<lambda>(n, acc). IsDefault acc) (accounts am))"

section \<open>Guarded-repository registry (internal/core/protected.go)\<close>

text \<open>\<^verbatim>\<open>isSubPath(path, parentPath)\<close>.\<close>

definition isSubPath :: "string \<Rightarrow> string \<Rightarrow> bool" where
  "isSubPath path parentPath =
     (case Rel parentPath path of
        Inl _ \<Rightarrow> False
      | Inr rel \<Rightarrow> rel \<noteq> ''..'' \<and> \<not> IsAbs rel \<and> rel \<noteq> ''.'')"

text \<open>
  An ordinary element of a path: not empty, not \<^verbatim>\<open>.\<close>, not \<^verbatim>\<open>..\<close>, and without a
  separator.  Below the root, a cleaned absolute path has ordinary elements only.
\<close>

definition ordinary :: "string \<Rightarrow> bool" where
  "ordinary e = (e \<noteq> [] \<and> e \<noteq> ''.'' \<and> e \<noteq> ''..'' \<and> CHR ''/'' \<notin> set e)"

text \<open>
  Coverage as the specification words it: a path is covered by a Guard when it equals the
  Guard's path or is a filesystem descendant of it.  \<open>descendsFrom path parentPath\<close>
  says, for absolute paths, that the elements of the cleaned parent are a proper initial
  segment of the elements of the cleaned path.
\<close>

definition descendsFrom :: "string \<Rightarrow> string \<Rightarrow> bool" where
  "descendsFrom path parentPath =
     (IsAbs path \<and> IsAbs parentPath
      \<and> length (elems (Clean parentPath)) < length (elems (Clean path))
      \<and> take (length (elems (Clean parentPath))) (elems (Clean path))
            = elems (Clean parentPath))"

subsection \<open>The password hash\<close>

text \<open>
  \<^verbatim>\<open>for i, c := range password\<close> decodes the string as UTF-8: \<open>decodeRune s\<close> is
  \<^verbatim>\<open>utf8.DecodeRuneInString(s)\<close>, the rune at the head of \<open>s\<close> and its width in bytes
  (\<^verbatim>\<open>RuneError\<close> and width 1 for an invalid encoding).  Masks and shifts are written as
  \<open>mod\<close> and \<open>*\<close> on \<open>nat\<close>.
\<close>

definition RuneError :: nat where
  "RuneError = 0xFFFD"

definition MaxRune :: nat where
  "MaxRune = 0x10FFFF"

fun decodeRune :: "string \<Rightarrow> nat \<times> nat" where
  "decodeRune [] = (RuneError, 0)"
| "decodeRune (c0 # rest) =
     (let b0 = (of_char c0 :: nat) in
      if b0 < 0x80 then (b0, 1)
      else if b0 < 0xC2 \<or> 0xF4 < b0 then (RuneError, 1)
      else
        let sz = (if b0 < 0xE0 then 2 else if b0 < 0xF0 then 3 else (4::nat));
            lo = (if b0 = 0xE0 then 0xA0 else if b0 = 0xF0 then 0x90 else (0x80::nat));
            hi = (if b0 = 0xED then 0x9F else if b0 = 0xF4 then 0x8F else (0xBF::nat))
        in
        if length rest + 1 < sz then (RuneError, 1)
        else
          let b1 = (of_char (rest ! 0) :: nat) in
          if b1 < lo \<or> hi < b1 then (RuneError, 1)
          else if sz \<le> 2 then ((b0 mod 32) * 64 + b1 mod 64, 2)
          else
            let b2 = (of_char (rest ! 1) :: nat) in
            if b2 < 0x80 \<or> 0xBF < b2 then (RuneError, 1)
            else if sz \<le> 3 then ((b0 mod 16) * 4096 + (b1 mod 64) * 64 + b2 mod 64, 3)
            else
              let b3 = (of_char (rest ! 2) :: nat) in
              if b3 < 0x80 \<or> 0xBF < b3 then (RuneError, 1)
              else ((b0 mod 8) * 262144 + (b1 mod 64) * 4096 + (b2 mod 64) * 64
                      + b3 mod 64, 4))"

text \<open>
  The loop of \<^verbatim>\<open>hashPassword\<close>: \<open>i\<close> is the byte index of the rune, \<open>h\<close> the
  \<^verbatim>\<open>uint64\<close> accumulator (multiplication and addition wrap).
\<close>

fun hashLoop :: "nat \<Rightarrow> 64 word \<Rightarrow> string \<Rightarrow> 64 word" where
  "hashLoop i h [] = h"
| "hashLoop i h (c # cs) =
     (case decodeRune (c # cs) of
        (r, w) \<Rightarrow> hashLoop (i + w) (h * 31 + of_nat r + of_nat i) (drop (w - 1) cs))"

text \<open>
  \<^verbatim>\<open>string(rune(hash))\<close>: \<^verbatim>\<open>rune(hash)\<close> keeps the low 32 bits as a signed \<^verbatim>\<open>int32\<close>;
  the conversion to string is the UTF-8 encoding of the rune, and of \<^verbatim>\<open>U+FFFD\<close> for a
  value that is no valid code point (negative, above \<^verbatim>\<open>U+10FFFF\<close>, or a surrogate).
\<close>

definition runeOf :: "64 word \<Rightarrow> int" where
  "runeOf h = sint (ucast h :: 32 word)"

definition encodeRune :: "nat \<Rightarrow> string" where
  "encodeRune r =
     (if r \<le> 0x7F then [char_of r]
      else if r \<le> 0x7FF then [char_of (0xC0 + r div 64), char_of (0x80 + r mod 64)]
      else if r \<le> 0xFFFF then
        [char_of (0xE0 + r div 4096), char_of (0x80 + (r div 64) mod 64),
         char_of (0x80 + r mod 64)]
      else
        [char_of (0xF0 + r div 262144), char_of (0x80 + (r div 4096) mod 64),
         char_of (0x80 + (r div 64) mod 64), char_of (0x80 + r mod 64)])"

definition validRune :: "int \<Rightarrow> bool" where
  "validRune r = (0 \<le> r \<and> r \<le> int MaxRune \<and> \<not> (0xD800 \<le> r \<and> r \<le> 0xDFFF))"

definition stringOfRune :: "int \<Rightarrow> string" where
  "stringOfRune r = (if validRune r then encodeRune (nat r) else encodeRune RuneError)"

definition hashPassword :: "string \<Rightarrow> string" where
  "hashPassword password = stringOfRune (runeOf (hashLoop 0 0 password))"

definition verifyPassword :: "string \<Rightarrow> string \<Rightarrow> bool" where
  "verifyPassword password hash = (hashPassword password = hash)"

subsection \<open>The registry\<close>

text \<open>
  \<^verbatim>\<open>ProtectedRepo\<close>; times are nanoseconds, 0 the zero \<^verbatim>\<open>time.Time\<close>.  The manager's map
  \<^verbatim>\<open>repos\<close> is an association list: its order is the order in which this run iterates
  over the map (Go leaves it unspecified, and every theorem below holds for every order).
\<close>

record ProtectedRepo =
  Path :: string
  Password :: string
  ProtectedAt :: int
  LastAccessed :: int

type_synonym ProtectedRepoManager = "(string \<times> ProtectedRepo) list"

text \<open>
  What the operating system answers during one call: the working directory
  (\<^verbatim>\<open>os.Getwd\<close>), the result of writing the registry file in \<^verbatim>\<open>save\<close>, and the clock.
\<close>

record sys =
  getwd :: "error + string"
  saveResult :: "error option"
  clock :: int

definition IsProtected :: "sys \<Rightarrow> ProtectedRepoManager \<Rightarrow> string \<Rightarrow> bool" where
  "IsProtected s pm repoPath =
     (case Abs (getwd s) repoPath of
        Inl _ \<Rightarrow> False
      | Inr absPath \<Rightarrow>
          list_ex (\<lambda>(protectedPath, _). absPath = protectedPath \<or> isSubPath absPath protectedPath) pm)"

definition GetProtection :: "sys \<Rightarrow> ProtectedRepoManager \<Rightarrow> string \<Rightarrow> ProtectedRepo option" where
  "GetProtection s pm repoPath =
     (case Abs (getwd s) repoPath of
        Inl _ \<Rightarrow> None
      | Inr absPath \<Rightarrow>
          (case map_of pm absPath of
             Some repo \<Rightarrow> Some repo
           | None \<Rightarrow>
               map_option snd (find (\<lambda>(protectedPath, _). isSubPath absPath protectedPath) pm)))"

text \<open>
  The mutating calls return the manager as the call leaves it, and the error (if any).
  The map is changed before \<^verbatim>\<open>save\<close> runs, so it is changed also when \<^verbatim>\<open>save\<close> fails.
\<close>

definition Protect ::
  "sys \<Rightarrow> ProtectedRepoManager \<Rightarrow> string \<Rightarrow> string \<Rightarrow> ProtectedRepoManager \<times> error option" where
  "Protect s pm repoPath password =
     (case Abs (getwd s) repoPath of
        Inl e \<Rightarrow> (pm, Some e)
      | Inr absPath \<Rightarrow>
          let hashedPassword = (if password \<noteq> [] then hashPassword password else [])
          in (AList.update absPath
                \<lparr>Path = absPath, Password = hashedPassword, ProtectedAt = clock s,
                 LastAccessed = 0\<rparr> pm,
              saveResult s))"

definition Unprotect ::
  "sys \<Rightarrow> ProtectedRepoManager \<Rightarrow> string \<Rightarrow> string \<Rightarrow> ProtectedRepoManager \<times> error option" where
  "Unprotect s pm repoPath password =
     (case Abs (getwd s) repoPath of
        Inl e \<Rightarrow> (pm, Some e)
      | Inr absPath \<Rightarrow>
          (case map_of pm absPath of
             None \<Rightarrow> (pm, None)
           | Some repo \<Rightarrow>
               if Password repo \<noteq> [] \<and> \<not> verifyPassword password (Password repo)
               then (pm, Some ErrGitProtected)
               else (AList.delete absPath pm, saveResult s)))"

definition VerifyAccess :: "sys \<Rightarrow> ProtectedRepoManager \<Rightarrow> string \<Rightarrow> string \<Rightarrow> bool" where
  "VerifyAccess s pm repoPath password =
     (case GetProtection s pm repoPath of
        None \<Rightarrow> True
      | Some repo \<Rightarrow> if Password repo = [] then True else verifyPassword password (Password repo))"

section \<open>Threshold watcher (internal/automation, watcher file)\<close>

definition ThresholdCommits :: string where
  "ThresholdCommits = ''commits''"

definition ThresholdTime :: string where
  "ThresholdTime = ''time''"

definition ThresholdSize :: string where
  "ThresholdSize = ''size''"

text \<open>
  \<^verbatim>\<open>ThresholdType\<close> is a string type: a configuration can carry any string.  Durations
  and times are nanoseconds.
\<close>

record WatcherConfig =
  ThresholdType :: string
  ThresholdValue :: string
  Interval :: int
  Remote :: string
  Branch :: string

text \<open>
  The watcher.  Its four callback fields are modelled by whether they are set; a call of
  a callback is an \<open>event\<close>.  \<open>GitPush\<close> is the call of the publish executor
  \<^verbatim>\<open>gitSvc.Push(remote, branch, false, false)\<close>.
\<close>

record Watcher =
  thresholdType :: string
  thresholdValue :: string
  interval :: int
  remote :: string
  branch :: string
  lastPushTime :: int
  hasOnPush :: bool
  hasOnError :: bool
  hasOnCheck :: bool
  hasOnSkipped :: bool

datatype event =
    OnCheck string string string
  | OnSkipped string
  | OnError error
  | OnPush string string int
  | GitPush string string

text \<open>What the repository and the clock answer when the watcher is constructed.\<close>

record gitView =
  isRepo :: bool
  currentBranch :: "error + string"
  constructedAt :: int

definition Second :: int where
  "Second = 1000000000"

definition NewWatcher :: "gitView \<Rightarrow> WatcherConfig \<Rightarrow> error + Watcher" where
  "NewWatcher g cfg =
     (if \<not> isRepo g then Inl ErrNotARepo
      else (case (if Branch cfg = [] then currentBranch g else Inr (Branch cfg)) of
              Inl e \<Rightarrow> Inl e
            | Inr br \<Rightarrow>
                let rem = (if Remote cfg = [] then ''origin'' else Remote cfg);
                    iv = (if Interval cfg = 0 then 10 * Second else Interval cfg);
                    tt = (if ThresholdType cfg = [] then ThresholdCommits
                          else ThresholdType cfg);
                    tv = (if ThresholdValue cfg = []
                          then (if tt = ThresholdCommits then ''3''
                                else if tt = ThresholdTime then ''5m''
                                else if tt = ThresholdSize then ''1MB''
                                else [])
                          else ThresholdValue cfg)
                in Inr \<lparr>thresholdType = tt, thresholdValue = tv, interval = iv,
                        remote = rem, branch = br, lastPushTime = constructedAt g,
                        hasOnPush = False, hasOnError = False, hasOnCheck = False,
                        hasOnSkipped = False\<rparr>))"

text \<open>
  What the collaborators answer during one poll: the pending-commit count asked by
  \<^verbatim>\<open>checkThreshold\<close> and the one asked again by \<^verbatim>\<open>Start\<close>, the size of the unpushed
  changes, the clock read by \<^verbatim>\<open>time.Since\<close>, the URL of the remote \<^verbatim>\<open>origin\<close>, the
  system and the registry as \<^verbatim>\<open>IsProtected\<close> finds them, the result of the push and the
  clock after it.
\<close>

record poll =
  pendingCheck :: "error + int"
  pendingReport :: "error + int"
  unpushedSize :: "error + int"
  checkedAt :: int
  originURL :: "error + string"
  pollSys :: sys
  protectedRepos :: ProtectedRepoManager
  pushResult :: "error option"
  pushedAt :: int

text \<open>\<^verbatim>\<open>count, _ := f()\<close>: a failed call leaves the zero value.\<close>

definition valueOrZero :: "error + int \<Rightarrow> int" where
  "valueOrZero r = (case r of Inl _ \<Rightarrow> 0 | Inr v \<Rightarrow> v)"

text \<open>\<^verbatim>\<open>time.Since\<close>: the difference of the two times, saturating at the ends of \<^verbatim>\<open>int64\<close>.\<close>

definition maxDuration :: int where
  "maxDuration = 2 ^ 63 - 1"

definition minDuration :: int where
  "minDuration = - (2 ^ 63)"

definition Since :: "int \<Rightarrow> int \<Rightarrow> int" where
  "Since now t = max minDuration (min maxDuration (now - t))"

text \<open>\<^verbatim>\<open>Duration.Round(m)\<close>: to the nearest multiple of \<open>m\<close>, halves away from zero.\<close>

definition Round :: "int \<Rightarrow> int \<Rightarrow> int" where
  "Round d m =
     (if m \<le> 0 then d
      else if d < 0 then
        (let r = (- d) mod m in
         if r + r < m then d + r
         else if minDuration \<le> d - m + r then d - m + r else minDuration)
      else
        (let r = d mod m in
         if r + r < m then d - r
         else if d + m - r \<le> maxDuration then d + m - r else maxDuration))"

text \<open>\<^verbatim>\<open>ParseSize\<close>; the product is an \<^verbatim>\<open>int64\<close> and wraps.\<close>

definition ParseSize :: "golib \<Rightarrow> string \<Rightarrow> int" where
  "ParseSize lib s0 =
     (let s = ToUpper lib (TrimSpace lib s0);
          multiplier =
            (if HasSuffix s ''KB'' then 1024
             else if HasSuffix s ''MB'' then 1024 * 1024
             else if HasSuffix s ''GB'' then 1024 * 1024 * 1024
             else (1::int));
          s' = (if HasSuffix s ''KB'' then TrimSuffix s ''KB''
                else if HasSuffix s ''MB'' then TrimSuffix s ''MB''
                else if HasSuffix s ''GB'' then TrimSuffix s ''GB''
                else s);
          v = fst (ParseInt (TrimSpace lib s'))
      in sint (word_of_int (v * multiplier) :: 64 word))"

definition FormatSize :: "golib \<Rightarrow> int \<Rightarrow> string" where
  "FormatSize lib bytes =
     (if bytes \<ge> 1024 * 1024 * 1024
        then FormatQuotient lib bytes (1024 * 1024 * 1024) @ '' GB''
      else if bytes \<ge> 1024 * 1024 then FormatQuotient lib bytes (1024 * 1024) @ '' MB''
      else if bytes \<ge> 1024 then FormatQuotient lib bytes 1024 @ '' KB''
      else Itoa bytes @ '' B'')"

text \<open>
  \<^verbatim>\<open>checkThreshold\<close>: the decision, the reason, and the calls of \<^verbatim>\<open>OnCheck\<close> it made.
\<close>

definition checkThreshold :: "golib \<Rightarrow> Watcher \<Rightarrow> poll \<Rightarrow> (bool \<times> string) \<times> event list" where
  "checkThreshold lib w p =
     (if thresholdType w = ThresholdCommits then
        (case pendingCheck p of
           Inl _ \<Rightarrow> ((False, []), [])
         | Inr count \<Rightarrow>
             let threshold = fst (Atoi (thresholdValue w));
                 evs = (if hasOnCheck w
                        then [OnCheck ThresholdCommits (Itoa count) (thresholdValue w)]
                        else [])
             in if count \<ge> threshold
                  then ((True, Itoa count @ '' commits pending (threshold: ''
                                 @ Itoa threshold @ '')''), evs)
                else if count > 0
                  then ((False, Itoa count @ ''/'' @ Itoa threshold @ '' commits''), evs)
                else ((False, []), evs))
      else if thresholdType w = ThresholdTime then
        (case ParseDuration lib (thresholdValue w) of
           Inl _ \<Rightarrow> ((False, []), [])
         | Inr duration \<Rightarrow>
             let elapsed = Since (checkedAt p) (lastPushTime w);
                 evs = (if hasOnCheck w
                        then [OnCheck ThresholdTime
                                (DurationString lib (Round elapsed Second))
                                (DurationString lib duration)]
                        else [])
             in if elapsed \<ge> duration \<and> valueOrZero (pendingCheck p) > 0
                  then ((True, ''time threshold reached ('' @ thresholdValue w @ '')''), evs)
                else ((False, []), evs))
      else if thresholdType w = ThresholdSize then
        (case unpushedSize p of
           Inl _ \<Rightarrow> ((False, []), [])
         | Inr sz \<Rightarrow>
             let threshold = ParseSize lib (thresholdValue w);
                 evs = (if hasOnCheck w
                        then [OnCheck ThresholdSize (FormatSize lib sz)
                                (FormatSize lib threshold)]
                        else [])
             in if sz \<ge> threshold
                  then ((True, ''size threshold reached ('' @ FormatSize lib sz @ '')''),
                        evs)
                else ((False, []), evs))
      else ((False, []), []))"

text \<open>
  \<^verbatim>\<open>Service.RepoName\<close>: the last element of the URL of \<^verbatim>\<open>origin\<close> without a final
  \<^verbatim>\<open>.git\<close>; \<^verbatim>\<open>push\<close> drops its error and keeps the name.
\<close>

definition RepoName :: "poll \<Rightarrow> string \<times> error option" where
  "RepoName p =
     (case originURL p of
        Inl e \<Rightarrow> ([], Some e)
      | Inr url \<Rightarrow>
          let parts = splitSlash (TrimSuffix url ''.git'')
          in if length parts > 0 then (last parts, None) else ([], Some ErrGit))"

text \<open>\<^verbatim>\<open>Watcher.push\<close>: the watcher after it, its error, and the executor calls it made.\<close>

definition push :: "Watcher \<Rightarrow> poll \<Rightarrow> Watcher \<times> error option \<times> event list" where
  "push w p =
     (let repoName = fst (RepoName p) in
      if IsProtected (pollSys p) (protectedRepos p) repoName
        then (w, Some (ErrRepoProtected repoName), [])
      else (case pushResult p of
              Some e \<Rightarrow> (w, Some e, [GitPush (remote w) (branch w)])
            | None \<Rightarrow> (w\<lparr>lastPushTime := pushedAt p\<rparr>, None,
                       [GitPush (remote w) (branch w)])))"

text \<open>
  The body of the ticker case of \<^verbatim>\<open>Start\<close>: the watcher after the poll, whether the
  poll decided to publish (\<^verbatim>\<open>shouldPush\<close>), and the events of the poll in order.
\<close>

definition tick :: "golib \<Rightarrow> Watcher \<Rightarrow> poll \<Rightarrow> Watcher \<times> bool \<times> event list" where
  "tick lib w p =
     (case checkThreshold lib w p of
        ((shouldPush, reason), evs) \<Rightarrow>
          if shouldPush then
            (let count = valueOrZero (pendingReport p) in
             case push w p of
               (w', err, pevs) \<Rightarrow>
                 (w', True,
                  evs @ pevs @
                  (case err of
                     Some e \<Rightarrow> if hasOnError w then [OnError e] else []
                   | None \<Rightarrow> if hasOnPush w then [OnPush (remote w) (branch w) count] else [])))
          else if reason \<noteq> [] then
            (w, False, evs @ (if hasOnSkipped w then [OnSkipped reason] else []))
          else (w, False, evs))"

text \<open>
  The loop of \<^verbatim>\<open>Start\<close> selects between the cancellation of its context and the
  next tick.  The list gives what it receives, in order; the result is the watcher, the
  decision and events of every poll, and whether the loop has returned (it returns
  \<^verbatim>\<open>nil\<close> on cancellation and blocks when nothing more arrives).
\<close>

datatype signal = Tick poll | Done

fun watchLoop ::
  "golib \<Rightarrow> Watcher \<Rightarrow> signal list \<Rightarrow> Watcher \<times> (bool \<times> event list) list \<times> bool" where
  "watchLoop lib w [] = (w, [], False)"
| "watchLoop lib w (Done # rest) = (w, [], True)"
| "watchLoop lib w (Tick p # rest) =
     (case tick lib w p of
        (w', shouldPush, evs) \<Rightarrow>
          (case watchLoop lib w' rest of
             (w'', polls, returned) \<Rightarrow> (w'', (shouldPush, evs) # polls, returned)))"

text \<open>
  \<^verbatim>\<open>Start\<close> first builds the ticker: \<^verbatim>\<open>time.NewTicker(w.interval)\<close> panics when the
  interval is not positive (\<^verbatim>\<open>NewWatcher\<close> replaces an interval of 0 only, so a
  negative one reaches this call), and then no poll takes place.
\<close>

definition Start ::
  "golib \<Rightarrow> Watcher \<Rightarrow> signal list
     \<Rightarrow> error + Watcher \<times> (bool \<times> event list) list \<times> bool" where
  "Start lib w signals =
     (if interval w \<le> 0 then Inl ErrPanic else Inr (watchLoop lib w signals))"

section \<open>Sample environments\<close>

text \<open>
  Concrete inputs on which the model is run below.  \<open>stubLib\<close> stands in for the
  library parameters: it leaves strings as they are, knows the single duration \<^verbatim>\<open>5m\<close>,
  and uses a fixed 32-byte key, a counting key stream and the ciphertext length as tag.
\<close>

definition stubLib :: golib where
  "stubLib =
     \<lparr>ToUpper = (\<lambda>s. s), TrimSpace = (\<lambda>s. s),
      ParseDuration = (\<lambda>s. if s = ''5m'' then Inr (300 * Second) else Inl ErrDuration),
      DurationString = Itoa, FormatQuotient = (\<lambda>a b. Itoa (a div b)),
      Sum256 = (\<lambda>s. replicate 32 (CHR ''k'')),
      keyStream = (\<lambda>key nonce i. of_nat i + 7),
      gcmTag = (\<lambda>key nonce ct. of_nat (length ct))\<rparr>"

definition demoMachine :: machine where
  "demoMachine = \<lparr>hostname = ''devbox'', homeDir = ''/home/dev''\<rparr>"

definition demoSys :: sys where
  "demoSys = \<lparr>getwd = Inr ''/home/dev'', saveResult = None, clock = 1\<rparr>"

text \<open>A registry with one Guard without password on \<^verbatim>\<open>/a/b\<close>.\<close>

definition guardAB :: ProtectedRepoManager where
  "guardAB = fst (Protect demoSys [] ''/a/b'' [])"

text \<open>A registry with one Guard on \<^verbatim>\<open>/a\<close>, password \<^verbatim>\<open>ab\<close>.\<close>

definition firstGuard :: ProtectedRepoManager where
  "firstGuard = fst (Protect demoSys [] ''/a'' ''ab'')"

text \<open>A registry with one Guard without password on \<^verbatim>\<open>/a\<close>.\<close>

definition guardA :: ProtectedRepoManager where
  "guardA = fst (Protect demoSys [] ''/a'' [])"

text \<open>
  A registry with a Guard without password on \<^verbatim>\<open>/a\<close> and a Guard with password
  \<^verbatim>\<open>ab\<close> on \<^verbatim>\<open>/a/b\<close>.
\<close>

definition nestedGuards :: ProtectedRepoManager where
  "nestedGuards = fst (Protect demoSys (fst (Protect demoSys [] ''/a'' [])) ''/a/b'' ''ab'')"

text \<open>
  A vault session: add \<^verbatim>\<open>a\<close>, add \<^verbatim>\<open>b\<close>, remove \<^verbatim>\<open>a\<close>; every file operation
  succeeds.
\<close>

definition demoVaultSys :: vaultSys where
  "demoVaultSys = \<lparr>vaultEntropy = Inr (\<lambda>i. of_nat i), writeResult = None,
                    removeResult = None, createdNow = 1, updatedNow = 2, rangeFirst = 0\<rparr>"

definition emptyVault :: AccountManager where
  "emptyVault = \<lparr>dir = ''/home/dev/.arngit/accounts'', accounts = [], current = []\<rparr>"

definition vaultA :: "AccountManager \<times> error option" where
  "vaultA = Add stubLib demoMachine demoVaultSys emptyVault
              ''a'' ''alice'' ''alice@example.org'' ''patA''"

definition vaultAB :: "AccountManager \<times> error option" where
  "vaultAB = Add stubLib demoMachine demoVaultSys (fst vaultA)
              ''b'' ''bob'' ''bob@example.org'' ''patB''"

definition vaultB :: "AccountManager \<times> error option" where
  "vaultB = Remove demoVaultSys (fst vaultAB) ''a''"

text \<open>Watchers, configurations and polls.\<close>

definition demoGit :: gitView where
  "demoGit = \<lparr>isRepo = True, currentBranch = Inr ''main'', constructedAt = 0\<rparr>"

definition badConfig :: WatcherConfig where
  "badConfig = \<lparr>ThresholdType = ThresholdCommits, ThresholdValue = ''abc'', Interval = 0,
                 Remote = [], Branch = []\<rparr>"

definition badWatcher :: Watcher where
  "badWatcher = \<lparr>thresholdType = ThresholdCommits, thresholdValue = ''abc'',
                  interval = 10 * Second, remote = ''origin'', branch = ''main'',
                  lastPushTime = 0, hasOnPush = False, hasOnError = False,
                  hasOnCheck = False, hasOnSkipped = False\<rparr>"

definition demoWatcher :: Watcher where
  "demoWatcher = \<lparr>thresholdType = ThresholdCommits, thresholdValue = ''3'',
                  interval = 10 * Second, remote = ''origin'', branch = ''main'',
                  lastPushTime = 0, hasOnPush = True, hasOnError = True,
                  hasOnCheck = False, hasOnSkipped = False\<rparr>"

definition timeWatcher :: Watcher where
  "timeWatcher = \<lparr>thresholdType = ThresholdTime, thresholdValue = ''5m'',
                  interval = 10 * Second, remote = ''origin'', branch = ''main'',
                  lastPushTime = 0, hasOnPush = True, hasOnError = True,
                  hasOnCheck = False, hasOnSkipped = False\<rparr>"

text \<open>
  A poll 400 seconds after the watcher was built that finds \<open>c\<close> pending commits, an
  unprotected repository and a push that succeeds.
\<close>

definition countPoll :: "int \<Rightarrow> poll" where
  "countPoll c = \<lparr>pendingCheck = Inr c, pendingReport = Inr c, unpushedSize = Inr 0,
                checkedAt = 400 * Second,
                originURL = Inr ''https://example.org/dev/project.git'',
                pollSys = demoSys, protectedRepos = [], pushResult = None,
                pushedAt = 401 * Second\<rparr>"

text \<open>
  A poll in the working directory \<^verbatim>\<open>/a/b\<close>, which the registry \<open>guardAB\<close> protects,
  of a repository whose remote \<^verbatim>\<open>origin\<close> is the relative path \<^verbatim>\<open>..\<close>; three commits
  are pending.
\<close>

definition protectedPoll :: poll where
  "protectedPoll = \<lparr>pendingCheck = Inr 3, pendingReport = Inr 3, unpushedSize = Inr 0,
                checkedAt = 5, originURL = Inr ''..'',
                pollSys = \<lparr>getwd = Inr ''/a/b'', saveResult = None, clock = 5\<rparr>,
                protectedRepos = guardAB, pushResult = None, pushedAt = 6\<rparr>"


section \<open>Facts about the library functions\<close>

lemmas path_eval = Abs_def Join2_def Clean_def IsAbs_def elems_def Rel_def isSubPath_def

lemmas atoi_eval = Atoi_def ParseInt_def ParseUint_def isDigit_def maxUint64_def

lemma Atoi_abc: "Atoi ''abc'' = (0, Some ErrSyntax)"
  by (simp add: atoi_eval)

lemma Atoi_3: "Atoi ''3'' = (3, None)"
  by (simp add: atoi_eval)

lemma Atoi_syntax_zero:
  assumes "snd (Atoi s) = Some ErrSyntax"
  shows "fst (Atoi s) = 0"
  using assms
  by (auto simp add: Atoi_def ParseInt_def Let_def split: list.splits prod.splits if_splits)

subsection \<open>Paths: a descendant is a sub-path\<close>

lemma Rel_relative_dot: "Rel ''a'' ''.'' = Inr ''..''"
  by (simp add: path_eval)

lemma Rel_outside: "Rel ''/a/b'' ''/x'' = Inr ''../../x''"
  by (simp add: path_eval)

lemma splitSlash_nonempty: "splitSlash s \<noteq> []"
  by (induction s) (auto split: list.splits)

lemma splitSlash_no_slash: "e \<in> set (splitSlash s) \<Longrightarrow> CHR ''/'' \<notin> set e"
proof (induction s arbitrary: e)
  case Nil
  then show ?case by simp
next
  case (Cons c cs)
  then show ?case
    by (cases "splitSlash cs") (auto split: if_splits)
qed

lemma splitSlash_plain: "CHR ''/'' \<notin> set e \<Longrightarrow> splitSlash e = [e]"
  by (induction e) auto

lemma splitSlash_append:
  "CHR ''/'' \<notin> set e \<Longrightarrow> splitSlash (e @ CHR ''/'' # r) = e # splitSlash r"
  by (induction e) auto

lemma splitSlash_joinSlash:
  "es \<noteq> [] \<Longrightarrow> \<forall>e \<in> set es. CHR ''/'' \<notin> set e \<Longrightarrow> splitSlash (joinSlash es) = es"
proof (induction es rule: joinSlash.induct)
  case 1
  then show ?case by simp
next
  case (2 p)
  then show ?case by (simp add: splitSlash_plain)
next
  case (3 p q ps)
  then show ?case by (simp add: splitSlash_append)
qed

lemma cleanElems_ordinary:
  "\<forall>e \<in> set acc. ordinary e \<Longrightarrow> \<forall>e \<in> set es. CHR ''/'' \<notin> set e \<Longrightarrow>
   \<forall>e \<in> set (cleanElems True acc es). ordinary e"
proof (induction es arbitrary: acc)
  case Nil
  then show ?case by simp
next
  case (Cons x es)
  note IH = Cons.IH and acc = Cons.prems(1)
  from Cons.prems(2) have es: "\<forall>e \<in> set es. CHR ''/'' \<notin> set e" and x: "CHR ''/'' \<notin> set x"
    by simp_all
  show ?case
  proof (cases "x = [] \<or> x = ''.''")
    case True
    then have "cleanElems True acc (x # es) = cleanElems True acc es" by auto
    then show ?thesis using IH [OF acc es] by (simp only:)
  next
    case False
    note nx = this
    show ?thesis
    proof (cases "x = ''..''")
      case True
      show ?thesis
      proof (cases acc)
        case Nil
        then have "cleanElems True acc (x # es) = cleanElems True [] es"
          using True by simp
        moreover have "\<forall>e \<in> set (cleanElems True [] es). ordinary e"
          by (rule IH [OF _ es]) simp
        ultimately show ?thesis by (simp only:)
      next
        case (Cons t ts)
        with acc have t: "t \<noteq> ''..''" and ts: "\<forall>e \<in> set ts. ordinary e"
          by (auto simp add: ordinary_def)
        have "cleanElems True acc (x # es) = cleanElems True ts es"
          using True Cons t by simp
        moreover have "\<forall>e \<in> set (cleanElems True ts es). ordinary e"
          by (rule IH [OF ts es])
        ultimately show ?thesis by (simp only:)
      qed
    next
      case False
      with nx acc x have xa: "\<forall>e \<in> set (x # acc). ordinary e"
        by (auto simp add: ordinary_def)
      have "cleanElems True acc (x # es) = cleanElems True (x # acc) es"
        using False nx by simp
      moreover have "\<forall>e \<in> set (cleanElems True (x # acc) es). ordinary e"
        by (rule IH [OF xa es])
      ultimately show ?thesis by (simp only:)
    qed
  qed
qed

lemma clean_abs_elems:
  assumes "IsAbs p"
  shows "\<exists>out. (\<forall>e \<in> set out. ordinary e) \<and> Clean p = CHR ''/'' # joinSlash out
    \<and> elems (Clean p) = [] # out"
proof -
  let ?out = "cleanElems True [] (splitSlash p)"
  from assms have ne: "p \<noteq> []" by (auto simp add: IsAbs_def)
  have ord: "\<forall>e \<in> set ?out. ordinary e"
    by (rule cleanElems_ordinary) (auto dest: splitSlash_no_slash)
  have c: "Clean p = CHR ''/'' # joinSlash ?out"
    using assms ne by (simp add: Clean_def)
  have "elems (CHR ''/'' # joinSlash ?out) = [] # ?out"
  proof (cases "?out = []")
    case True
    then show ?thesis by (simp add: elems_def)
  next
    case False
    with ord have s: "splitSlash (joinSlash ?out) = ?out"
      by (intro splitSlash_joinSlash) (auto simp add: ordinary_def)
    from False ord have "last ?out \<noteq> []"
      by (metis last_in_set ordinary_def)
    with False show ?thesis by (simp add: elems_def s)
  qed
  with ord c show ?thesis by auto
qed

lemma dropCommon_prefix: "dropCommon xs (xs @ ys) = ([], ys)"
  by (induction xs) auto

lemma joinSlash_ordinary_head:
  assumes "ordinary e"
  shows "joinSlash (e # rest) \<noteq> ''..''" "joinSlash (e # rest) \<noteq> ''.''"
    "\<not> IsAbs (joinSlash (e # rest))" "joinSlash (e # rest) \<noteq> []"
proof -
  obtain c cs where e: "e = c # cs" and c: "c \<noteq> CHR ''/''"
    using assms by (cases e) (auto simp add: ordinary_def)
  show "\<not> IsAbs (joinSlash (e # rest))" "joinSlash (e # rest) \<noteq> []"
    using e c by (cases rest; simp add: IsAbs_def)+
  show "joinSlash (e # rest) \<noteq> ''..''"
  proof (cases rest)
    case Nil
    then show ?thesis using assms by (simp add: ordinary_def)
  next
    case (Cons q qs)
    have "CHR ''/'' \<in> set (joinSlash (e # q # qs))" by simp
    moreover have "CHR ''/'' \<notin> set ''..''" by simp
    ultimately show ?thesis using Cons by metis
  qed
  show "joinSlash (e # rest) \<noteq> ''.''"
  proof (cases rest)
    case Nil
    then show ?thesis using assms by (simp add: ordinary_def)
  next
    case (Cons q qs)
    have "CHR ''/'' \<in> set (joinSlash (e # q # qs))" by simp
    moreover have "CHR ''/'' \<notin> set ''.''" by simp
    ultimately show ?thesis using Cons by metis
  qed
qed

lemma cleanElems_ordinary_id:
  "\<forall>e \<in> set es. ordinary e \<Longrightarrow> cleanElems rooted acc es = rev acc @ es"
  by (induction es arbitrary: acc) (auto simp add: ordinary_def)

lemma Clean_joinSlash_ordinary:
  assumes "\<forall>e \<in> set (e # rest). ordinary e"
  shows "Clean (joinSlash (e # rest)) = joinSlash (e # rest)"
proof -
  let ?s = "joinSlash (e # rest)"
  from assms have o: "ordinary e" by simp
  have s: "splitSlash ?s = e # rest"
    using assms by (intro splitSlash_joinSlash) (auto simp add: ordinary_def)
  have "cleanElems False [] (e # rest) = e # rest"
    using assms cleanElems_ordinary_id [of "e # rest" False "[]"] by simp
  then show ?thesis
    using joinSlash_ordinary_head(3,4) [OF o, of rest]
    by (simp add: Clean_def s del: joinSlash.simps cleanElems.simps)
qed

lemma descendsFrom_isSubPath:
  assumes "descendsFrom a k"
  shows "isSubPath a k" and "a \<noteq> k"
proof -
  from assms have abs: "IsAbs a" "IsAbs k"
    and len: "length (elems (Clean k)) < length (elems (Clean a))"
    and pre: "take (length (elems (Clean k))) (elems (Clean a)) = elems (Clean k)"
    by (simp_all add: descendsFrom_def)
  obtain ok where ok: "Clean k = CHR ''/'' # joinSlash ok" "elems (Clean k) = [] # ok"
    using clean_abs_elems [OF abs(2)] by auto
  obtain oa where oa: "\<forall>e \<in> set oa. ordinary e" "Clean a = CHR ''/'' # joinSlash oa"
    "elems (Clean a) = [] # oa"
    using clean_abs_elems [OF abs(1)] by auto
  from len show "a \<noteq> k" by auto
  from pre len obtain r where r: "elems (Clean a) = elems (Clean k) @ r" "r \<noteq> []"
    by (metis append_take_drop_id drop_eq_Nil not_le)
  then obtain e rest where er: "r = e # rest" by (cases r) auto
  with r oa ok have "set (e # rest) \<subseteq> set oa" by auto
  with oa(1) have ord: "\<forall>x \<in> set (e # rest). ordinary x" by auto
  then have o: "ordinary e" by simp
  have ne: "Clean a \<noteq> Clean k" using len by auto
  have d: "dropCommon (elems (Clean k)) (elems (Clean a)) = ([], e # rest)"
    by (simp add: r(1) er dropCommon_prefix)
  have ia: "IsAbs (Clean a)" "IsAbs (Clean k)" "Clean k \<noteq> ''.''"
    by (simp_all add: oa ok IsAbs_def)
  have "Rel k a = Inr (joinSlash (e # rest))"
    using ne ia d Clean_joinSlash_ordinary [OF ord]
    by (simp add: Rel_def Let_def del: joinSlash.simps)
  then show "isSubPath a k"
    using joinSlash_ordinary_head [OF o, of rest]
    by (simp add: isSubPath_def del: joinSlash.simps)
qed

lemma descendsFrom_child: "descendsFrom ''/a/b/c'' ''/a/b''"
  by (simp add: descendsFrom_def path_eval)

lemma descendsFrom_outside: "\<not> descendsFrom ''/x'' ''/a/b''"
  by (simp add: descendsFrom_def path_eval)

subsection \<open>Base64: decoding undoes encoding\<close>

lemma indexOf_nth:
  "distinct xs \<Longrightarrow> i < length xs \<Longrightarrow> indexOf (xs ! i) xs = i"
proof (induction xs arbitrary: i)
  case Nil
  then show ?case by simp
next
  case (Cons x xs)
  show ?case
  proof (cases i)
    case 0
    then show ?thesis by simp
  next
    case (Suc j)
    with Cons.prems have "j < length xs" and "xs ! j \<in> set xs" and "x \<notin> set xs"
      by auto
    then have "xs ! j \<noteq> x" by auto
    with Cons Suc \<open>j < length xs\<close> show ?thesis by simp
  qed
qed

lemma length_encodeStd: "length encodeStd = 64"
  by (simp add: encodeStd_def)

lemma distinct_encodeStd: "distinct encodeStd"
  by (simp add: encodeStd_def)

lemma decodeMap_enc64: "decodeMap (enc64 v) = Some (v mod 64)"
proof -
  have "indexOf (encodeStd ! (v mod 64)) encodeStd = v mod 64"
    by (rule indexOf_nth [OF distinct_encodeStd]) (simp add: length_encodeStd)
  then show ?thesis by (simp add: decodeMap_def enc64_def)
qed

lemma enc64_in_alphabet: "enc64 v \<in> set encodeStd"
  by (simp add: enc64_def length_encodeStd)

lemma enc64_not_special:
  "enc64 v \<noteq> padChar" "enc64 v \<noteq> CHR 0x0A" "enc64 v \<noteq> CHR 0x0D"
proof -
  have "padChar \<notin> set encodeStd" "CHR 0x0A \<notin> set encodeStd" "CHR 0x0D \<notin> set encodeStd"
    by (simp_all add: encodeStd_def padChar_def)
  with enc64_in_alphabet [of v]
  show "enc64 v \<noteq> padChar" "enc64 v \<noteq> CHR 0x0A" "enc64 v \<noteq> CHR 0x0D"
    by metis+
qed

text \<open>Four six-bit digits of a 24-bit value put it together again.\<close>

lemma sextets_join:
  fixes v :: nat
  assumes "v < 16777216"
  shows "unpack4 ((v div 262144) mod 64) ((v div 4096) mod 64) ((v div 64) mod 64) (v mod 64) = v"
proof -
  have a: "v mod 4096 = 64 * (v div 64 mod 64) + v mod 64"
    using mod_mult2_eq [of v 64 64] by simp
  have b: "v mod 262144 = 4096 * (v div 4096 mod 64) + v mod 4096"
    using mod_mult2_eq [of v 4096 64] by simp
  have c: "v div 262144 < 64"
    using assms by (simp add: div_less_iff_less_mult)
  have d: "v = 262144 * (v div 262144) + v mod 262144"
    by simp
  from c have e: "(v div 262144) mod 64 = v div 262144" by simp
  show ?thesis
    using a b d unfolding e unpack4_def by linarith
qed

lemma unat8_less: "unat (a :: 8 word) < 256"
  using unsigned_less [of a, where 'a = nat] by simp

lemma pack3_bound: "pack3 a b c < 16777216"
  using unat8_less [of a] unat8_less [of b] unat8_less [of c]
  unfolding pack3_def by linarith

lemma unpack4_pack3:
  "unpack4 ((pack3 a b c div 262144) mod 64) ((pack3 a b c div 4096) mod 64)
     ((pack3 a b c div 64) mod 64) (pack3 a b c mod 64) = pack3 a b c"
  by (rule sextets_join) (rule pack3_bound)

lemma pack3_low_zero: "pack3 a b 0 mod 64 = 0"
proof -
  have "pack3 a b 0 = (unat a * 1024 + unat b * 4) * 64"
    by (simp add: pack3_def)
  then show ?thesis by (simp only: mod_mult_self2_is_0)
qed

lemma pack3_mid_zero: "(pack3 a 0 0 div 64) mod 64 = 0"
proof -
  have "pack3 a 0 0 = (unat a * 16 * 64) * 64"
    by (simp add: pack3_def)
  then have "pack3 a 0 0 div 64 = (unat a * 16) * 64"
    by simp
  then show ?thesis by (simp only: mod_mult_self2_is_0)
qed

lemma word8_of_nat_eq:
  assumes "n mod 256 = unat (a :: 8 word)"
  shows "of_nat n = a"
proof -
  have "unat (of_nat n :: 8 word) = n mod 256"
    by (simp add: unat_of_nat)
  with assms show ?thesis
    by (simp add: word_unat_eq_iff)
qed

lemma pack3_byte0: "of_nat (pack3 a b c div 65536) = a"
proof (rule word8_of_nat_eq)
  have "pack3 a b c div 65536 = unat a"
    using unat8_less [of b] unat8_less [of c] by (simp add: pack3_def)
  then show "pack3 a b c div 65536 mod 256 = unat a"
    using unat8_less [of a] by simp
qed

lemma pack3_byte1: "of_nat (pack3 a b c div 256) = b"
proof (rule word8_of_nat_eq)
  have "pack3 a b c = (unat a * 256 + unat b) * 256 + unat c"
    by (simp add: pack3_def)
  then have "pack3 a b c div 256 = unat a * 256 + unat b"
    using unat8_less [of c] by simp
  then show "pack3 a b c div 256 mod 256 = unat b"
    using unat8_less [of b] by simp
qed

lemma pack3_byte2: "of_nat (pack3 a b c) = c"
proof (rule word8_of_nat_eq)
  have "pack3 a b c = unat c + (unat a * 256 + unat b) * 256"
    by (simp add: pack3_def)
  then have "pack3 a b c mod 256 = (unat c + (unat a * 256 + unat b) * 256) mod 256"
    by (simp only:)
  also have "\<dots> = unat c mod 256" by (simp only: mod_mult_self1)
  finally show "pack3 a b c mod 256 = unat c"
    using unat8_less [of c] by simp
qed

lemma b64Quanta_b64Encode: "b64Quanta (b64Encode bs) = Inr bs"
proof (induction bs rule: b64Encode.induct)
  case 1
  then show ?case by simp
next
  case (2 a)
  have "unpack4 ((pack3 a 0 0 div 262144) mod 64) ((pack3 a 0 0 div 4096) mod 64) 0 0
          = pack3 a 0 0"
    using unpack4_pack3 [of a 0 0] by (simp only: pack3_low_zero pack3_mid_zero)
  then show ?case
    by (simp add: decodeMap_enc64 enc64_not_special pack3_byte0)
next
  case (3 a b)
  have "unpack4 ((pack3 a b 0 div 262144) mod 64) ((pack3 a b 0 div 4096) mod 64)
          ((pack3 a b 0 div 64) mod 64) 0 = pack3 a b 0"
    using unpack4_pack3 [of a b 0] by (simp only: pack3_low_zero)
  then show ?case
    by (simp add: decodeMap_enc64 enc64_not_special pack3_byte0 pack3_byte1)
next
  case (4 a b c rest)
  then show ?case
    by (simp add: decodeMap_enc64 enc64_not_special unpack4_pack3
        pack3_byte0 pack3_byte1 pack3_byte2)
qed

lemma b64Encode_chars:
  "c \<in> set (b64Encode bs) \<Longrightarrow> c \<noteq> CHR 0x0A \<and> c \<noteq> CHR 0x0D"
proof (induction bs rule: b64Encode.induct)
  case 1
  then show ?case by simp
next
  case (2 a)
  then show ?case using enc64_not_special(2,3) by (auto simp add: padChar_def)
next
  case (3 a b)
  then show ?case using enc64_not_special(2,3) by (auto simp add: padChar_def)
next
  case (4 a b c rest)
  then show ?case using enc64_not_special(2,3) by auto
qed

lemma b64Decode_b64Encode: "b64Decode (b64Encode bs) = Inr bs"
proof -
  have "filter (\<lambda>c. c \<noteq> CHR 0x0A \<and> c \<noteq> CHR 0x0D) (b64Encode bs) = b64Encode bs"
    by (rule filter_True) (use b64Encode_chars in blast)
  then show ?thesis by (simp add: b64Decode_def b64Quanta_b64Encode)
qed

lemma b64Encode_Man: "b64Encode [77, 97, 110] = ''TWFu''"
  by (simp add: enc64_def encodeStd_def pack3_def)

lemma b64Decode_padded: "b64Decode ''TWE='' = Inr [77, 97]"
  by (simp add: b64Decode_def decodeMap_def encodeStd_def padChar_def unpack4_def)

section \<open>The secret cipher\<close>

lemma length_xorKeyStream: "length (xorKeyStream lib key nonce bs) = length bs"
  by (simp add: xorKeyStream_def)

lemma xorKeyStream_involution:
  "xorKeyStream lib key nonce (xorKeyStream lib key nonce bs) = bs"
proof (rule nth_equalityI)
  show "length (xorKeyStream lib key nonce (xorKeyStream lib key nonce bs)) = length bs"
    by (simp add: length_xorKeyStream)
next
  fix i
  assume "i < length (xorKeyStream lib key nonce (xorKeyStream lib key nonce bs))"
  then have i: "i < length bs" by (simp add: length_xorKeyStream)
  then show "xorKeyStream lib key nonce (xorKeyStream lib key nonce bs) ! i = bs ! i"
    by (simp add: xorKeyStream_def nth_enumerate_eq xor.assoc)
qed

lemma length_tagBytes: "length (tagBytes t) = gcmTagSize"
  by (simp add: tagBytes_def)

lemma gcmOpen_gcmSeal:
  assumes "gcmSeal lib key nonce pt = Inr sealed"
  shows "gcmOpen lib key nonce (drop (length nonce) sealed) = Inr pt"
proof -
  let ?ct = "xorKeyStream lib key nonce pt"
  let ?tag = "tagBytes (gcmTag lib key nonce ?ct)"
  from assms have len: "length pt \<le> gcmMaxPlaintext" and s: "sealed = nonce @ ?ct @ ?tag"
    by (auto simp add: gcmSeal_def Let_def split: if_splits)
  have d: "drop (length nonce) sealed = ?ct @ ?tag" by (simp add: s)
  have l: "length (?ct @ ?tag) - gcmTagSize = length ?ct"
    by (simp add: length_tagBytes)
  show ?thesis
    unfolding d gcmOpen_def l
    using len by (simp add: length_tagBytes length_xorKeyStream xorKeyStream_involution)
qed

lemma charOfByte_byteOfChar: "charOfByte (byteOfChar c) = c"
  by (simp add: charOfByte_def byteOfChar_def unat_of_nat)

lemma length_ReadFull: "ReadFull src n = Inr bs \<Longrightarrow> length bs = n"
  by (auto simp add: ReadFull_def split: sum.splits)

lemma encrypt_total:
  assumes "length (encryptionKey lib m) = 32" and "length s \<le> gcmMaxPlaintext"
  shows "\<exists>token. encrypt lib m (Inr f) s = Inr token"
  using assms by (simp add: encrypt_def NewCipher_def ReadFull_def gcmSeal_def Let_def)

text \<open>
  Claim C9 (cipher round trip).  Whenever \<^verbatim>\<open>encrypt\<close> produces a token for a string
  \<open>s\<close>, \<^verbatim>\<open>decrypt\<close> on the same machine (same host name and home directory, hence the
  same derived key) returns exactly \<open>s\<close>, whatever nonce the entropy source gave.  And
  \<^verbatim>\<open>encrypt\<close> does produce a token whenever the derived key has the 32 bytes of a SHA-256
  digest, the entropy source delivers, and the string is within the message limit of
  GCM.
\<close>

theorem decrypt_encrypt:
  "(encrypt lib m src s = Inr token \<longrightarrow> decrypt lib m token = Inr s)
   \<and> (length (encryptionKey lib m) = 32 \<longrightarrow> length s \<le> gcmMaxPlaintext
        \<longrightarrow> (\<exists>token. encrypt lib m (Inr f) s = Inr token))"
proof (intro conjI impI)
  assume e: "encrypt lib m src s = Inr token"
  then obtain block nonce sealed where
    b: "NewCipher (encryptionKey lib m) = Inr block" and
    n: "ReadFull src gcmNonceSize = Inr nonce" and
    g: "gcmSeal lib block nonce (map byteOfChar s) = Inr sealed" and
    t: "token = b64Encode sealed"
    by (auto simp add: encrypt_def split: sum.splits)
  from n have ln: "length nonce = gcmNonceSize" by (rule length_ReadFull)
  from g have sealed: "take gcmNonceSize sealed = nonce" "gcmNonceSize \<le> length sealed"
    using ln by (auto simp add: gcmSeal_def Let_def split: if_splits)
  have o: "gcmOpen lib block nonce (drop gcmNonceSize sealed) = Inr (map byteOfChar s)"
    using gcmOpen_gcmSeal [OF g] by (simp add: ln)
  have "map charOfByte (map byteOfChar s) = s"
    by (simp add: charOfByte_byteOfChar comp_def)
  then show "decrypt lib m token = Inr s"
    using b o sealed by (simp add: decrypt_def t b64Decode_b64Encode)
next
  assume "length (encryptionKey lib m) = 32" and "length s \<le> gcmMaxPlaintext"
  then show "\<exists>token. encrypt lib m (Inr f) s = Inr token"
    by (rule encrypt_total)
qed

theorem decrypt_encrypt_witness:
  "\<exists>token. encrypt stubLib demoMachine (Inr (\<lambda>i. of_nat i)) ''patA'' = Inr token
      \<and> decrypt stubLib demoMachine token = Inr ''patA''"
proof -
  have k: "length (encryptionKey stubLib demoMachine) = 32"
    by (simp add: encryptionKey_def stubLib_def)
  have l: "length ''patA'' \<le> gcmMaxPlaintext"
    by (simp add: gcmMaxPlaintext_def)
  note t = decrypt_encrypt [where lib = stubLib and m = demoMachine and s = "''patA''"
      and f = "\<lambda>i. of_nat i" and src = "Inr (\<lambda>i. of_nat i)"]
  from t k l obtain token where
    e: "encrypt stubLib demoMachine (Inr (\<lambda>i. of_nat i)) ''patA'' = Inr token"
    by blast
  with t [where token = token] show ?thesis by blast
qed

section \<open>The credential vault\<close>

lemma Add_success:
  assumes "map_of (accounts am) name = None"
    and "encrypt lib m (vaultEntropy s) (TrimSpace lib pat) = Inr token"
    and "writeResult s = None"
  shows "Add lib m s am name username email pat =
     (am\<lparr>accounts := AList.update name
            \<lparr>Name = name, Username = username, Email = email, PAT = token,
             IsDefault = (accounts am = []), CreatedAt = createdNow s,
             UpdatedAt = updatedNow s\<rparr> (accounts am),
          current := (if accounts am = [] then name else current am)\<rparr>, None)"
  using assms by (simp add: Add_def Let_def)

lemma stub_encrypt:
  assumes "length pat \<le> 100"
  shows "\<exists>token. encrypt stubLib demoMachine (vaultEntropy demoVaultSys) (TrimSpace stubLib pat)
      = Inr token"
proof -
  have "length (encryptionKey stubLib demoMachine) = 32"
    by (simp add: encryptionKey_def stubLib_def)
  moreover have "length (TrimSpace stubLib pat) \<le> gcmMaxPlaintext"
    using assms by (simp add: stubLib_def gcmMaxPlaintext_def)
  ultimately show ?thesis
    using encrypt_total [of stubLib demoMachine "TrimSpace stubLib pat"]
    by (simp add: demoVaultSys_def)
qed

text \<open>
  Claim C1 (exactly one active identity).  The code at the input add \<^verbatim>\<open>a\<close>, add
  \<^verbatim>\<open>b\<close>, remove \<^verbatim>\<open>a\<close>: all three calls succeed; after the two additions exactly one
  identity (\<^verbatim>\<open>a\<close>) carries the is-active flag; \<^verbatim>\<open>Remove\<close> then makes \<^verbatim>\<open>b\<close> the
  manager's current account but leaves the flag of \<^verbatim>\<open>b\<close> unset, so one identity
  remains and none has is-active = true.
\<close>

theorem Remove_active_leaves_no_default:
  "snd vaultA = None \<and> snd vaultAB = None \<and> snd vaultB = None
   \<and> map fst (accounts (fst vaultA)) = [''a''] \<and> activeCount (fst vaultA) = 1
   \<and> map fst (accounts (fst vaultAB)) = [''a'', ''b''] \<and> activeCount (fst vaultAB) = 1
   \<and> current (fst vaultAB) = ''a''
   \<and> map fst (accounts (fst vaultB)) = [''b''] \<and> current (fst vaultB) = ''b''
   \<and> activeCount (fst vaultB) = 0"
proof -
  obtain tA where tA: "encrypt stubLib demoMachine (vaultEntropy demoVaultSys)
      (TrimSpace stubLib ''patA'') = Inr tA"
    using stub_encrypt [of "''patA''"] by auto
  obtain tB where tB: "encrypt stubLib demoMachine (vaultEntropy demoVaultSys)
      (TrimSpace stubLib ''patB'') = Inr tB"
    using stub_encrypt [of "''patB''"] by auto
  have w: "writeResult demoVaultSys = None" by (simp add: demoVaultSys_def)
  have a: "vaultA = (emptyVault\<lparr>accounts :=
      [(''a'', \<lparr>Name = ''a'', Username = ''alice'', Email = ''alice@example.org'', PAT = tA,
         IsDefault = True, CreatedAt = 1, UpdatedAt = 2\<rparr>)], current := ''a''\<rparr>, None)"
    unfolding vaultA_def
    by (subst Add_success [OF _ tA w]) (simp_all add: emptyVault_def demoVaultSys_def)
  have ab: "vaultAB = (emptyVault\<lparr>accounts :=
      [(''a'', \<lparr>Name = ''a'', Username = ''alice'', Email = ''alice@example.org'', PAT = tA,
         IsDefault = True, CreatedAt = 1, UpdatedAt = 2\<rparr>),
       (''b'', \<lparr>Name = ''b'', Username = ''bob'', Email = ''bob@example.org'', PAT = tB,
         IsDefault = False, CreatedAt = 1, UpdatedAt = 2\<rparr>)], current := ''a''\<rparr>, None)"
    unfolding vaultAB_def a
    by (subst Add_success [OF _ tB w]) (simp_all add: emptyVault_def demoVaultSys_def)
  have b: "vaultB = (emptyVault\<lparr>accounts :=
      [(''b'', \<lparr>Name = ''b'', Username = ''bob'', Email = ''bob@example.org'', PAT = tB,
         IsDefault = False, CreatedAt = 1, UpdatedAt = 2\<rparr>)], current := ''b''\<rparr>, None)"
    unfolding vaultB_def ab
    by (simp add: Remove_def emptyVault_def demoVaultSys_def)
  show ?thesis
    by (simp add: a ab b activeCount_def)
qed

text \<open>
  The manager's field \<^verbatim>\<open>current\<close> is kept up to date by all three operations:
  whenever an identity is stored, \<^verbatim>\<open>current\<close> names one of them.  It is the flag
  \<^verbatim>\<open>IsDefault\<close> of the identities that \<^verbatim>\<open>Remove\<close> does not maintain.
\<close>

lemma keys_delete: "fst ` set (AList.delete k al) = fst ` set al - {k}"
  by (induction al) auto

lemma keys_update: "fst ` set (AList.update k v al) = insert k (fst ` set al)"
  by (induction al) auto

lemma nth_key_mem: "al \<noteq> [] \<Longrightarrow> fst (al ! (k mod length al)) \<in> fst ` set al"
  by (simp add: nth_mem)

lemma Add_current:
  assumes "accounts am = [] \<or> current am \<in> fst ` set (accounts am)"
  shows "accounts (fst (Add lib m s am name username email pat)) = []
    \<or> current (fst (Add lib m s am name username email pat))
        \<in> fst ` set (accounts (fst (Add lib m s am name username email pat)))"
  using assms
  by (auto simp add: Add_def Let_def keys_update split: sum.splits option.splits)

lemma Remove_current:
  assumes "accounts am = [] \<or> current am \<in> fst ` set (accounts am)"
  shows "accounts (fst (Remove s am name)) = []
    \<or> current (fst (Remove s am name)) \<in> fst ` set (accounts (fst (Remove s am name)))"
proof (cases "snd (Remove s am name) = None \<and> map_of (accounts am) name \<noteq> None")
  case False
  then have "fst (Remove s am name) = am"
    by (auto simp add: Remove_def Let_def split: option.splits)
  with assms show ?thesis by simp
next
  case True
  let ?accs = "AList.delete name (accounts am)"
  from True have r: "fst (Remove s am name) =
      am\<lparr>accounts := ?accs,
         current := (if current am = name
                     then (if ?accs = [] then [] else fst (?accs ! (rangeFirst s mod length ?accs)))
                     else current am)\<rparr>"
    by (auto simp add: Remove_def Let_def split: option.splits)
  show ?thesis
  proof (cases "?accs = []")
    case True
    then show ?thesis by (simp add: r)
  next
    case False
    note ne = this
    show ?thesis
    proof (cases "current am = name")
      case True
      then show ?thesis using ne nth_key_mem [OF ne] by (simp add: r)
    next
      case False
      from ne have "accounts am \<noteq> []" by auto
      with assms have "current am \<in> fst ` set (accounts am)" by simp
      with False have "current am \<in> fst ` set ?accs" by (simp add: keys_delete)
      with False show ?thesis by (simp add: r)
    qed
  qed
qed

lemma Switch_current:
  assumes "accounts am = [] \<or> current am \<in> fst ` set (accounts am)"
  shows "accounts (fst (Switch s am name)) = []
    \<or> current (fst (Switch s am name)) \<in> fst ` set (accounts (fst (Switch s am name)))"
proof (cases "map_of (accounts am) name")
  case None
  with assms show ?thesis by (simp add: Switch_def)
next
  case (Some acc)
  then have "name \<in> fst ` set (accounts am)"
    by (metis map_of_SomeD image_eqI fst_conv)
  then have "name \<in> fst ` set (map (\<lambda>(n, acc). (n, acc\<lparr>IsDefault := (n = name)\<rparr>)) (accounts am))"
    by force
  with Some show ?thesis by (simp add: Switch_def)
qed

text \<open>
  \<^verbatim>\<open>Switch\<close>, by contrast, moves the flag: after a successful switch exactly the
  chosen identity carries it.
\<close>

lemma flag_count_absent:
  "name \<notin> fst ` set al \<Longrightarrow>
   filter (\<lambda>(n, acc). IsDefault acc) (map (\<lambda>(n, acc). (n, acc\<lparr>IsDefault := (n = name)\<rparr>)) al) = []"
  by (induction al) auto

lemma flag_count_present:
  "distinct (map fst al) \<Longrightarrow> name \<in> fst ` set al \<Longrightarrow>
   length (filter (\<lambda>(n, acc). IsDefault acc)
     (map (\<lambda>(n, acc). (n, acc\<lparr>IsDefault := (n = name)\<rparr>)) al)) = 1"
proof (induction al)
  case Nil
  then show ?case by simp
next
  case (Cons x al)
  obtain k v where x: "x = (k, v)" by (cases x)
  show ?case
  proof (cases "k = name")
    case True
    with Cons.prems x have "name \<notin> fst ` set al" by auto
    then show ?thesis using True x by (simp add: flag_count_absent)
  next
    case False
    with Cons.prems x have "distinct (map fst al)" and "name \<in> fst ` set al" by auto
    then show ?thesis using False x Cons.IH by simp
  qed
qed

lemma Switch_sets_one_flag:
  assumes "distinct (map fst (accounts am))" and "map_of (accounts am) name = Some acc"
  shows "snd (Switch s am name) = None \<and> activeCount (fst (Switch s am name)) = 1
    \<and> current (fst (Switch s am name)) = name"
proof -
  from assms(2) have "name \<in> fst ` set (accounts am)"
    by (metis map_of_SomeD image_eqI fst_conv)
  with assms(1) have "length (filter (\<lambda>(n, acc). IsDefault acc)
     (map (\<lambda>(n, acc). (n, acc\<lparr>IsDefault := (n = name)\<rparr>)) (accounts am))) = 1"
    by (rule flag_count_present)
  then show ?thesis
    using assms(2) by (simp add: Switch_def activeCount_def)
qed

section \<open>The guarded-repository registry\<close>

lemma encodeRune_nonempty: "encodeRune r \<noteq> []"
  by (simp add: encodeRune_def)

lemma hashPassword_nonempty: "hashPassword pw \<noteq> []"
  by (simp add: hashPassword_def stringOfRune_def encodeRune_nonempty)

lemmas rune_eval = hashPassword_def stringOfRune_def runeOf_def validRune_def MaxRune_def

lemma hashLoop_secret: "hashLoop 0 0 ''secret'' = 3389676211"
  by (simp add: RuneError_def)

lemma hashLoop_wrong: "hashLoop 0 0 ''wrong'' = 113437167"
  by (simp add: RuneError_def)

lemma hash_secret: "hashPassword ''secret'' = encodeRune RuneError"
  by (simp add: rune_eval hashLoop_secret)

lemma hash_wrong: "hashPassword ''wrong'' = encodeRune RuneError"
  by (simp add: rune_eval hashLoop_wrong)

lemma hash_ab: "hashPassword ''ab'' = [CHR 0xE0, CHR 0xB0, CHR 0xA2]"
  by (simp add: rune_eval encodeRune_def RuneError_def char_of_eq_iff)

lemma hash_b: "hashPassword ''b'' = ''b''"
  by (simp add: rune_eval encodeRune_def RuneError_def char_of_eq_iff)

lemma hashPassword_single_rune: "\<exists>r. r \<le> MaxRune \<and> hashPassword pw = encodeRune r"
proof (cases "validRune (runeOf (hashLoop 0 0 pw))")
  case True
  then have "nat (runeOf (hashLoop 0 0 pw)) \<le> MaxRune"
    by (simp add: validRune_def nat_le_iff)
  with True show ?thesis
    by (auto simp add: hashPassword_def stringOfRune_def)
next
  case False
  have "RuneError \<le> MaxRune" by (simp add: RuneError_def MaxRune_def)
  with False show ?thesis
    by (auto simp add: hashPassword_def stringOfRune_def)
qed

lemma IsProtected_exact:
  assumes "Abs (getwd s) p = Inr a" and "map_of pm a = Some g"
  shows "IsProtected s pm p"
proof -
  from assms(2) have "(a, g) \<in> set pm" by (rule map_of_SomeD)
  then have "list_ex (\<lambda>(k, _). a = k \<or> isSubPath a k) pm"
    unfolding list_ex_iff by (intro bexI[of _ "(a, g)"]) auto
  with assms(1) show ?thesis by (simp add: IsProtected_def)
qed

lemma IsProtected_delete:
  assumes "Abs (getwd s) p = Inr a"
  shows "IsProtected s (AList.delete a pm) p \<longleftrightarrow> list_ex (\<lambda>(k, _). k \<noteq> a \<and> isSubPath a k) pm"
  using assms by (auto simp add: IsProtected_def list_ex_iff AList.delete_eq)

lemma Protect_ok:
  assumes "Abs (getwd s) p = Inr a"
  shows "Protect s pm p pw =
     (AList.update a \<lparr>Path = a, Password = (if pw = [] then [] else hashPassword pw),
        ProtectedAt = clock s, LastAccessed = 0\<rparr> pm, saveResult s)"
  using assms by (simp add: Protect_def)

lemma guardAB_eval:
  "guardAB = [(''/a/b'', \<lparr>Path = ''/a/b'', Password = [], ProtectedAt = 1, LastAccessed = 0\<rparr>)]"
  by (simp add: guardAB_def Protect_def demoSys_def path_eval)

lemma firstGuard_eval:
  "firstGuard = [(''/a'', \<lparr>Path = ''/a'', Password = hashPassword ''ab'', ProtectedAt = 1,
      LastAccessed = 0\<rparr>)]"
  by (simp add: firstGuard_def Protect_def demoSys_def path_eval)

lemma nestedGuards_eval:
  "nestedGuards =
     [(''/a'', \<lparr>Path = ''/a'', Password = [], ProtectedAt = 1, LastAccessed = 0\<rparr>),
      (''/a/b'', \<lparr>Path = ''/a/b'', Password = hashPassword ''ab'', ProtectedAt = 1,
         LastAccessed = 0\<rparr>)]"
  by (simp add: nestedGuards_def Protect_def demoSys_def path_eval)

text \<open>
  A remark on coverage as the code computes it: \<^verbatim>\<open>isSubPath\<close> rejects only the
  relative paths \<^verbatim>\<open>.\<close> and \<^verbatim>\<open>..\<close>, so it also accepts a path outside the parent,
  whose relative path starts with \<^verbatim>\<open>../\<close>.  A true descendant is always accepted
  (\<open>descendsFrom_isSubPath\<close>).  The theorems below state coverage through
  \<open>IsProtected\<close>, and where they name the covering Guard they take a true ancestor
  (\<open>descendsFrom\<close>); their concrete inputs use true descendants only.
\<close>

lemma isSubPath_descendant: "isSubPath ''/a/b/c'' ''/a/b''"
  by (simp add: path_eval)

lemma isSubPath_parent: "\<not> isSubPath ''/a'' ''/a/b''"
  by (simp add: path_eval)

lemma isSubPath_outside: "isSubPath ''/x'' ''/a/b''"
  by (simp add: path_eval)

subsection \<open>Password hash collisions\<close>

text \<open>
  Claim C10 (password hash collisions).  The hash of every password is the encoding of
  one single code point.  The distinct passwords \<^verbatim>\<open>secret\<close> and \<^verbatim>\<open>wrong\<close> have the
  same hash, the replacement character \<^verbatim>\<open>U+FFFD\<close>, because both accumulators leave the
  range of code points.  Hence \<^verbatim>\<open>verifyPassword\<close> accepts \<^verbatim>\<open>wrong\<close> for a Guard set
  with \<^verbatim>\<open>secret\<close>, and so do \<^verbatim>\<open>Unprotect\<close> (which removes the Guard) and
  \<^verbatim>\<open>VerifyAccess\<close>.
\<close>

theorem hashPassword_collision:
  "(\<exists>r. r \<le> MaxRune \<and> hashPassword pw = encodeRune r)
   \<and> ''secret'' \<noteq> ''wrong''
   \<and> hashPassword ''secret'' = hashPassword ''wrong''
   \<and> hashPassword ''secret'' = encodeRune RuneError
   \<and> verifyPassword ''wrong'' (hashPassword ''secret'')
   \<and> Unprotect demoSys (fst (Protect demoSys [] ''/repo'' ''secret'')) ''/repo'' ''wrong''
       = ([], None)
   \<and> VerifyAccess demoSys (fst (Protect demoSys [] ''/repo'' ''secret'')) ''/repo'' ''wrong''"
proof -
  have p: "fst (Protect demoSys [] ''/repo'' ''secret'') =
      [(''/repo'', \<lparr>Path = ''/repo'', Password = encodeRune RuneError, ProtectedAt = 1,
          LastAccessed = 0\<rparr>)]"
    by (simp add: Protect_def demoSys_def path_eval hash_secret)
  have n: "encodeRune RuneError \<noteq> []" by (rule encodeRune_nonempty)
  have v: "verifyPassword ''wrong'' (encodeRune RuneError)"
    by (simp add: verifyPassword_def hash_wrong)
  have u: "Unprotect demoSys [(''/repo'', \<lparr>Path = ''/repo'', Password = encodeRune RuneError,
      ProtectedAt = 1, LastAccessed = 0\<rparr>)] ''/repo'' ''wrong'' = ([], None)"
    using v by (simp add: Unprotect_def demoSys_def path_eval)
  have a: "VerifyAccess demoSys [(''/repo'', \<lparr>Path = ''/repo'', Password = encodeRune RuneError,
      ProtectedAt = 1, LastAccessed = 0\<rparr>)] ''/repo'' ''wrong''"
    using v n by (simp add: VerifyAccess_def GetProtection_def demoSys_def path_eval)
  show ?thesis
    using hashPassword_single_rune [of pw] u a v
    by (simp add: p hash_secret hash_wrong)
qed

subsection \<open>Unprotect on a path without a Guard of its own\<close>

text \<open>
  \<^verbatim>\<open>Unprotect\<close> looks for a Guard stored under the path itself.  Without one it
  succeeds and changes nothing; that is the case of a path that no Guard covers (the first
  half of claim C3), and also of a descendant of a protected root.
\<close>

lemma Unprotect_no_exact_guard:
  assumes "Abs (getwd s) p = Inr a" and "map_of pm a = None"
  shows "Unprotect s pm p pw = (pm, None)"
  using assms by (simp add: Unprotect_def)

lemma Unprotect_uncovered_noop:
  assumes "Abs (getwd s) p = Inr a" and "\<not> IsProtected s pm p"
  shows "Unprotect s pm p pw = (pm, None)"
proof (cases "map_of pm a")
  case None
  with assms(1) show ?thesis by (rule Unprotect_no_exact_guard)
next
  case (Some g)
  with assms have False using IsProtected_exact by blast
  then show ?thesis ..
qed

text \<open>
  Claim C3 (unprotect coverage), second half.  The code at the registry with one Guard
  on \<^verbatim>\<open>/a/b\<close> and the descendant \<^verbatim>\<open>/a/b/c\<close>: the path is protected, and
  \<^verbatim>\<open>GetProtection\<close> finds the Guard of the ancestor; \<^verbatim>\<open>Unprotect\<close> on the descendant
  returns success, leaves the registry as it was, and the path is still protected.
\<close>

theorem Unprotect_descendant_keeps_guard:
  "IsProtected demoSys guardAB ''/a/b/c''
   \<and> GetProtection demoSys guardAB ''/a/b/c'' = map_of guardAB ''/a/b''
   \<and> map_of guardAB ''/a/b'' \<noteq> None
   \<and> Unprotect demoSys guardAB ''/a/b/c'' [] = (guardAB, None)
   \<and> IsProtected demoSys (fst (Unprotect demoSys guardAB ''/a/b/c'' [])) ''/a/b/c''"
  by (simp add: guardAB_eval IsProtected_def GetProtection_def Unprotect_def demoSys_def
      path_eval)

subsection \<open>Protect on a covered path\<close>

text \<open>
  Claim C4 as stated fails: \<^verbatim>\<open>/a\<close> is covered by a Guard with the hash of \<^verbatim>\<open>ab\<close>;
  protecting \<^verbatim>\<open>/a\<close> again with the password \<^verbatim>\<open>b\<close> returns no error, and the Guard
  then holds the different hash of \<^verbatim>\<open>b\<close>.
\<close>

theorem Protect_overwrites_counterexample:
  "IsProtected demoSys firstGuard ''/a''
   \<and> map_option Password (map_of firstGuard ''/a'') = Some (hashPassword ''ab'')
   \<and> snd (Protect demoSys firstGuard ''/a'' ''b'') = None
   \<and> map_option Password (map_of (fst (Protect demoSys firstGuard ''/a'' ''b'')) ''/a'')
       = Some (hashPassword ''b'')
   \<and> hashPassword ''b'' \<noteq> hashPassword ''ab''"
  by (simp add: firstGuard_eval IsProtected_def Protect_def demoSys_def path_eval
      hash_ab hash_b)

text \<open>
  Claim C4, amended.  On a path that is already covered, \<^verbatim>\<open>Protect\<close> does not fail on
  that account: it returns what writing the registry file returns, and it stores a new
  Guard under the canonical path, with the hash of the new password (empty for the empty
  password), replacing a Guard stored under that path.
\<close>

theorem Protect_covered_overwrites:
  assumes "Abs (getwd s) p = Inr a" and "IsProtected s pm p"
  shows "snd (Protect s pm p pw) = saveResult s
    \<and> map_of (fst (Protect s pm p pw)) a =
        Some \<lparr>Path = a, Password = (if pw = [] then [] else hashPassword pw),
              ProtectedAt = clock s, LastAccessed = 0\<rparr>"
  using assms(1) by (simp add: Protect_ok update_conv')

theorem Protect_covered_overwrites_witness:
  "Abs (getwd demoSys) ''/a'' = Inr ''/a'' \<and> IsProtected demoSys firstGuard ''/a''
   \<and> snd (Protect demoSys firstGuard ''/a'' ''b'') = saveResult demoSys
   \<and> map_of (fst (Protect demoSys firstGuard ''/a'' ''b'')) ''/a'' =
        Some \<lparr>Path = ''/a'', Password = hashPassword ''b'',
              ProtectedAt = clock demoSys, LastAccessed = 0\<rparr>"
proof -
  have a: "Abs (getwd demoSys) ''/a'' = Inr ''/a''"
    by (simp add: demoSys_def path_eval)
  have b: "IsProtected demoSys firstGuard ''/a''"
    by (simp add: firstGuard_eval IsProtected_def demoSys_def path_eval)
  show ?thesis
    using a b Protect_covered_overwrites [OF a b, of "''b''"] by simp
qed

subsection \<open>The password gate\<close>

text \<open>
  Claim C6 as stated fails: in the registry \<open>nestedGuards\<close> the path \<^verbatim>\<open>/a/b\<close> is
  protected with the non-empty password \<^verbatim>\<open>ab\<close>; \<^verbatim>\<open>Unprotect\<close> with that password
  succeeds, and \<^verbatim>\<open>/a/b\<close> is still protected afterwards, by the Guard on \<^verbatim>\<open>/a\<close>.
\<close>

theorem Unprotect_nested_counterexample:
  "map_option Password (map_of nestedGuards ''/a/b'') = Some (hashPassword ''ab'')
   \<and> hashPassword ''ab'' \<noteq> []
   \<and> verifyPassword ''ab'' (hashPassword ''ab'')
   \<and> snd (Unprotect demoSys nestedGuards ''/a/b'' ''ab'') = None
   \<and> IsProtected demoSys (fst (Unprotect demoSys nestedGuards ''/a/b'' ''ab'')) ''/a/b''"
  by (simp add: nestedGuards_eval verifyPassword_def hashPassword_nonempty
      IsProtected_def Unprotect_def demoSys_def path_eval)

text \<open>
  Claim C6, amended.  Let \<open>p\<close> be protected with a non-empty password \<open>pw\<close>, in any
  registry \<open>pm0\<close>.  Then \<open>p\<close> is protected; \<^verbatim>\<open>Unprotect\<close> with a password that does
  not verify fails with \<open>ErrGitProtected\<close> and leaves the registry unchanged;
  \<^verbatim>\<open>Unprotect\<close> with a password that verifies removes the Guard of \<open>p\<close> (none is
  stored under its path afterwards) and returns what writing the registry file returns.
  Afterwards \<open>p\<close> is not protected when the registry held no Guard under another path,
  and \<open>p\<close> is still protected when a Guard on an ancestor of \<open>p\<close> remains.  Nothing is
  said of a registry in which only unrelated Guards remain.
\<close>

theorem Unprotect_password_gate:
  assumes "pw \<noteq> []" and "Abs (getwd s0) p = Inr a" and "Abs (getwd s) p = Inr a"
  shows "IsProtected s (fst (Protect s0 pm0 p pw)) p
    \<and> Unprotect s (fst (Protect s0 pm0 p pw)) p pw' =
        (if verifyPassword pw' (hashPassword pw)
         then (AList.delete a pm0, saveResult s)
         else (fst (Protect s0 pm0 p pw), Some ErrGitProtected))
    \<and> map_of (AList.delete a pm0) a = None
    \<and> (list_all (\<lambda>(k, _). k = a) pm0 \<longrightarrow> \<not> IsProtected s (AList.delete a pm0) p)
    \<and> (list_ex (\<lambda>(k, _). descendsFrom a k) pm0 \<longrightarrow> IsProtected s (AList.delete a pm0) p)"
proof -
  let ?g = "\<lparr>Path = a, Password = hashPassword pw, ProtectedAt = clock s0, LastAccessed = 0\<rparr>"
  have pm: "fst (Protect s0 pm0 p pw) = AList.update a ?g pm0"
    using assms(1,2) by (simp add: Protect_ok)
  have look: "map_of (AList.update a ?g pm0) a = Some ?g"
    by (simp add: update_conv')
  have 1: "IsProtected s (AList.update a ?g pm0) p"
    using assms(3) look by (rule IsProtected_exact)
  have 2: "Unprotect s (AList.update a ?g pm0) p pw' =
        (if verifyPassword pw' (hashPassword pw)
         then (AList.delete a pm0, saveResult s)
         else (AList.update a ?g pm0, Some ErrGitProtected))"
    using assms(3) look
    by (simp add: Unprotect_def hashPassword_nonempty delete_update_same)
  have 3: "map_of (AList.delete a pm0) a = None"
    by (simp add: delete_conv')
  have 4: "list_all (\<lambda>(k, _). k = a) pm0 \<longrightarrow> \<not> IsProtected s (AList.delete a pm0) p"
  proof
    assume "list_all (\<lambda>(k, _). k = a) pm0"
    then have "AList.delete a pm0 = []"
      by (auto simp add: AList.delete_eq list_all_iff filter_empty_conv)
    then show "\<not> IsProtected s (AList.delete a pm0) p"
      using assms(3) by (simp add: IsProtected_def)
  qed
  have 5: "list_ex (\<lambda>(k, _). descendsFrom a k) pm0 \<longrightarrow> IsProtected s (AList.delete a pm0) p"
  proof
    assume "list_ex (\<lambda>(k, _). descendsFrom a k) pm0"
    then obtain k g where kg: "(k, g) \<in> set pm0" and d: "descendsFrom a k"
      by (auto simp add: list_ex_iff)
    from d have sub: "isSubPath a k" and ne: "a \<noteq> k"
      by (rule descendsFrom_isSubPath)+
    from kg ne have "(k, g) \<in> set (AList.delete a pm0)"
      by (auto simp add: AList.delete_eq)
    with sub have "list_ex (\<lambda>(k, _). a = k \<or> isSubPath a k) (AList.delete a pm0)"
      unfolding list_ex_iff by (intro bexI [of _ "(k, g)"]) auto
    then show "IsProtected s (AList.delete a pm0) p"
      using assms(3) by (simp add: IsProtected_def)
  qed
  show ?thesis
    unfolding pm by (intro conjI 1 2 3 4 5)
qed

theorem Unprotect_password_gate_witness:
  "''ab'' \<noteq> [] \<and> Abs (getwd demoSys) ''/a/b'' = Inr ''/a/b''
   \<and> \<not> verifyPassword ''b'' (hashPassword ''ab'')
   \<and> IsProtected demoSys (fst (Protect demoSys [] ''/a/b'' ''ab'')) ''/a/b''
   \<and> Unprotect demoSys (fst (Protect demoSys [] ''/a/b'' ''ab'')) ''/a/b'' ''b'' =
        (fst (Protect demoSys [] ''/a/b'' ''ab''), Some ErrGitProtected)
   \<and> Unprotect demoSys (fst (Protect demoSys [] ''/a/b'' ''ab'')) ''/a/b'' ''ab'' =
        ([], None)
   \<and> \<not> IsProtected demoSys [] ''/a/b''
   \<and> list_ex (\<lambda>(k, _). descendsFrom ''/a/b'' k) guardA
   \<and> Unprotect demoSys (fst (Protect demoSys guardA ''/a/b'' ''ab'')) ''/a/b'' ''ab'' =
        (guardA, None)
   \<and> IsProtected demoSys guardA ''/a/b''"
proof -
  have n: "''ab'' \<noteq> []" by simp
  have a: "Abs (getwd demoSys) ''/a/b'' = Inr ''/a/b''"
    by (simp add: demoSys_def path_eval)
  have w: "\<not> verifyPassword ''b'' (hashPassword ''ab'')"
    by (simp add: verifyPassword_def hash_ab hash_b)
  have c: "verifyPassword ''ab'' (hashPassword ''ab'')"
    by (simp add: verifyPassword_def)
  have s: "saveResult demoSys = None" by (simp add: demoSys_def)
  have g: "guardA = [(''/a'', \<lparr>Path = ''/a'', Password = [], ProtectedAt = 1,
      LastAccessed = 0\<rparr>)]"
    by (simp add: guardA_def Protect_def demoSys_def path_eval)
  have d: "list_ex (\<lambda>(k, _). descendsFrom ''/a/b'' k) guardA"
    by (simp add: g descendsFrom_def path_eval)
  have e: "AList.delete ''/a/b'' guardA = guardA" "list_all (\<lambda>(k, _). k = ''/a/b'') []"
    by (simp_all add: g)
  show ?thesis
    using n a w c s d e
      Unprotect_password_gate [OF n a a, of "[]" "''b''"]
      Unprotect_password_gate [OF n a a, of "[]" "''ab''"]
      Unprotect_password_gate [OF n a a, of guardA "''ab''"]
    by simp
qed

section \<open>The threshold watcher\<close>

lemma kinds_distinct:
  "ThresholdTime \<noteq> ThresholdCommits" "ThresholdSize \<noteq> ThresholdCommits"
  "ThresholdSize \<noteq> ThresholdTime"
  by (simp_all add: ThresholdTime_def ThresholdCommits_def ThresholdSize_def)

lemma checkThreshold_commits:
  assumes "thresholdType w = ThresholdCommits"
  shows "fst (fst (checkThreshold lib w p)) =
     (case pendingCheck p of Inl _ \<Rightarrow> False | Inr c \<Rightarrow> fst (Atoi (thresholdValue w)) \<le> c)"
  using assms by (simp add: checkThreshold_def Let_def split: sum.splits)

lemma checkThreshold_time:
  assumes "thresholdType w = ThresholdTime"
  shows "fst (fst (checkThreshold lib w p)) \<longleftrightarrow>
     (\<exists>d. ParseDuration lib (thresholdValue w) = Inr d
          \<and> d \<le> Since (checkedAt p) (lastPushTime w)
          \<and> (\<exists>c. pendingCheck p = Inr c \<and> 0 < c))"
  using assms kinds_distinct
  by (auto simp add: checkThreshold_def Let_def valueOrZero_def split: sum.splits)

lemma push_config:
  "thresholdType (fst (push w p)) = thresholdType w"
  "thresholdValue (fst (push w p)) = thresholdValue w"
  by (simp_all add: push_def Let_def split: option.splits)

lemma push_lastPushTime:
  "lastPushTime (fst (push w p)) =
     (if fst (snd (push w p)) = None then pushedAt p else lastPushTime w)"
  by (simp add: push_def Let_def split: option.splits)

lemma tick_fst:
  "fst (tick lib w p) = (if fst (fst (checkThreshold lib w p)) then fst (push w p) else w)"
  by (simp add: tick_def Let_def split: prod.splits)

lemma tick_decision:
  "fst (snd (tick lib w p)) = fst (fst (checkThreshold lib w p))"
  by (simp add: tick_def Let_def split: prod.splits)

lemma tick_config:
  "thresholdType (fst (tick lib w p)) = thresholdType w"
  "thresholdValue (fst (tick lib w p)) = thresholdValue w"
  by (simp_all add: tick_fst push_config)

text \<open>
  A poll calls the publish executor exactly when it decided to publish and the registry
  does not report the path that \<^verbatim>\<open>push\<close> asks about, the repository name, as
  protected.
\<close>

lemma tick_calls_executor:
  "GitPush r b \<in> set (snd (snd (tick lib w p))) \<longleftrightarrow>
     r = remote w \<and> b = branch w \<and> fst (snd (tick lib w p))
     \<and> \<not> IsProtected (pollSys p) (protectedRepos p) (fst (RepoName p))"
proof -
  obtain d reason evs where c: "checkThreshold lib w p = ((d, reason), evs)"
    by (metis surj_pair)
  have "GitPush r b \<notin> set evs"
    using c by (auto simp add: checkThreshold_def Let_def split: sum.splits if_splits)
  with c show ?thesis
    by (auto simp add: tick_def push_def Let_def split: option.splits)
qed

subsection \<open>Protection and the publish executor\<close>

text \<open>
  Claim C2 (protection short-circuit).  The code at the poll \<open>protectedPoll\<close>: the
  working directory \<^verbatim>\<open>/a/b\<close> is protected, by its own path and as \<^verbatim>\<open>.\<close>; the trigger
  is met (three pending commits, threshold 3); \<^verbatim>\<open>push\<close> asks the registry about the
  repository name \<^verbatim>\<open>..\<close>, which resolves to the unprotected \<^verbatim>\<open>/a\<close>; so the poll calls
  the publish executor, records the push time and reports success through \<^verbatim>\<open>OnPush\<close>,
  and no error reaches \<^verbatim>\<open>OnError\<close>.
\<close>

theorem push_ignores_working_path:
  "getwd (pollSys protectedPoll) = Inr ''/a/b''
   \<and> IsProtected (pollSys protectedPoll) (protectedRepos protectedPoll) ''/a/b''
   \<and> IsProtected (pollSys protectedPoll) (protectedRepos protectedPoll) ''.''
   \<and> fst (RepoName protectedPoll) = ''..''
   \<and> hasOnError demoWatcher
   \<and> tick stubLib demoWatcher protectedPoll =
        (demoWatcher\<lparr>lastPushTime := 6\<rparr>, True,
         [GitPush ''origin'' ''main'', OnPush ''origin'' ''main'' 3])"
  by (simp add: Atoi_3 demoWatcher_def protectedPoll_def guardAB_eval
      checkThreshold_def tick_def push_def RepoName_def IsProtected_def valueOrZero_def
      path_eval TrimSuffix_def HasSuffix_def Itoa_def)

subsection \<open>Trigger values that do not parse\<close>

text \<open>
  Claim C5 as stated fails: \<^verbatim>\<open>abc\<close> is no integer, yet \<^verbatim>\<open>NewWatcher\<close> builds a
  commit-count watcher with it and reports no error; at a poll with zero pending commits
  the value is used as threshold 0: the poll decides to publish and calls the executor.
\<close>

theorem NewWatcher_bad_value_counterexample:
  "snd (Atoi ''abc'') = Some ErrSyntax
   \<and> NewWatcher demoGit badConfig = Inr badWatcher
   \<and> thresholdValue badWatcher = ''abc''
   \<and> pendingCheck (countPoll 0) = Inr 0
   \<and> fst (fst (checkThreshold stubLib badWatcher (countPoll 0)))
   \<and> snd (snd (tick stubLib badWatcher (countPoll 0))) = [GitPush ''origin'' ''main'']"
  by (simp add: Atoi_abc NewWatcher_def demoGit_def badConfig_def badWatcher_def countPoll_def
      checkThreshold_def tick_def push_def RepoName_def IsProtected_def valueOrZero_def
      demoSys_def path_eval TrimSuffix_def HasSuffix_def Itoa_def)

text \<open>
  Claim C5, amended.  Constructing a watcher never parses the trigger value:
  \<^verbatim>\<open>NewWatcher\<close> fails only when the directory is no repository or when the branch is
  unset and the current branch cannot be read, and it stores a non-empty value as given.
  A value that does not parse is not reported at a poll either: a commit-count value with
  a syntax error counts as threshold 0, and an elapsed-time value that does not parse
  makes the poll decide against publishing, with no reason and no callback.
\<close>

theorem NewWatcher_never_parses:
  "(NewWatcher g cfg = Inl e \<longleftrightarrow>
      (\<not> isRepo g \<and> e = ErrNotARepo)
      \<or> (isRepo g \<and> Branch cfg = [] \<and> currentBranch g = Inl e))
   \<and> (NewWatcher g cfg = Inr w' \<longrightarrow> ThresholdValue cfg \<noteq> [] \<longrightarrow>
         thresholdValue w' = ThresholdValue cfg)
   \<and> (thresholdType w = ThresholdCommits \<longrightarrow> snd (Atoi (thresholdValue w)) = Some ErrSyntax
         \<longrightarrow> pendingCheck p = Inr c
         \<longrightarrow> fst (fst (checkThreshold lib w p)) = (0 \<le> c))
   \<and> (thresholdType w = ThresholdTime \<longrightarrow> ParseDuration lib (thresholdValue w) = Inl e'
         \<longrightarrow> checkThreshold lib w p = ((False, []), []))"
proof (intro conjI impI)
  show "NewWatcher g cfg = Inl e \<longleftrightarrow>
      (\<not> isRepo g \<and> e = ErrNotARepo)
      \<or> (isRepo g \<and> Branch cfg = [] \<and> currentBranch g = Inl e)"
    by (auto simp add: NewWatcher_def Let_def split: sum.splits)
next
  assume "NewWatcher g cfg = Inr w'" and "ThresholdValue cfg \<noteq> []"
  then show "thresholdValue w' = ThresholdValue cfg"
    by (auto simp add: NewWatcher_def Let_def split: sum.splits if_splits)
next
  assume "thresholdType w = ThresholdCommits" and "snd (Atoi (thresholdValue w)) = Some ErrSyntax"
    and "pendingCheck p = Inr c"
  then show "fst (fst (checkThreshold lib w p)) = (0 \<le> c)"
    by (simp add: checkThreshold_commits Atoi_syntax_zero)
next
  assume "thresholdType w = ThresholdTime" and "ParseDuration lib (thresholdValue w) = Inl e'"
  then show "checkThreshold lib w p = ((False, []), [])"
    using kinds_distinct by (simp add: checkThreshold_def)
qed

theorem NewWatcher_never_parses_witness:
  "NewWatcher demoGit badConfig \<noteq> Inl ErrNotARepo
   \<and> NewWatcher demoGit (badConfig\<lparr>Branch := ''main''\<rparr>) = Inr badWatcher
   \<and> thresholdValue badWatcher = ''abc''
   \<and> snd (Atoi (thresholdValue badWatcher)) = Some ErrSyntax
   \<and> fst (fst (checkThreshold stubLib badWatcher (countPoll 0)))
   \<and> ParseDuration stubLib (thresholdValue (timeWatcher\<lparr>thresholdValue := ''soon''\<rparr>))
        = Inl ErrDuration
   \<and> checkThreshold stubLib (timeWatcher\<lparr>thresholdValue := ''soon''\<rparr>) (countPoll 5)
        = ((False, []), [])"
proof -
  have n: "NewWatcher demoGit (badConfig\<lparr>Branch := ''main''\<rparr>) = Inr badWatcher"
    by (simp add: NewWatcher_def demoGit_def badConfig_def badWatcher_def)
  have v: "ThresholdValue (badConfig\<lparr>Branch := ''main''\<rparr>) \<noteq> []"
    by (simp add: badConfig_def)
  have k: "thresholdType badWatcher = ThresholdCommits"
    by (simp add: badWatcher_def)
  have a: "snd (Atoi (thresholdValue badWatcher)) = Some ErrSyntax"
    by (simp add: badWatcher_def Atoi_abc)
  have c: "pendingCheck (countPoll 0) = Inr 0"
    by (simp add: countPoll_def)
  have kt: "thresholdType (timeWatcher\<lparr>thresholdValue := ''soon''\<rparr>) = ThresholdTime"
    by (simp add: timeWatcher_def)
  have d: "ParseDuration stubLib (thresholdValue (timeWatcher\<lparr>thresholdValue := ''soon''\<rparr>))
        = Inl ErrDuration"
    by (simp add: timeWatcher_def stubLib_def)
  have g: "isRepo demoGit" "Branch badConfig = []" "currentBranch demoGit = Inr ''main''"
    by (simp_all add: demoGit_def badConfig_def)
  show ?thesis
    using n v k a c kt d g
      NewWatcher_never_parses [where g = demoGit and cfg = badConfig and e = ErrNotARepo
        and w = badWatcher and p = "countPoll 0" and c = 0 and lib = stubLib]
      NewWatcher_never_parses [where g = demoGit and cfg = "badConfig\<lparr>Branch := ''main''\<rparr>"
        and w' = badWatcher and w = "timeWatcher\<lparr>thresholdValue := ''soon''\<rparr>"
        and p = "countPoll 5" and lib = stubLib and e' = ErrDuration]
    by (simp add: badConfig_def badWatcher_def)
qed

subsection \<open>The elapsed-time trigger\<close>

text \<open>
  Claim C7 (elapsed-time trigger).  Under the elapsed-time kind a poll decides to publish
  exactly when the value parses as a duration, the time since \<^verbatim>\<open>lastPushTime\<close> is at
  least that duration, and the pending-commit count was read and is positive; with no
  pending commit the poll never publishes, whatever time has passed.  \<^verbatim>\<open>lastPushTime\<close>
  is the time of the last successful publish: a poll changes it only when it decided to
  publish and the push returned no error, and then to the time after the push.
\<close>

theorem elapsed_time_trigger:
  assumes "thresholdType w = ThresholdTime"
  shows "(fst (fst (checkThreshold lib w p)) \<longleftrightarrow>
            (\<exists>d. ParseDuration lib (thresholdValue w) = Inr d
               \<and> d \<le> Since (checkedAt p) (lastPushTime w)
               \<and> (\<exists>c. pendingCheck p = Inr c \<and> 0 < c)))
     \<and> (valueOrZero (pendingCheck p) \<le> 0 \<longrightarrow> \<not> fst (snd (tick lib w p)))
     \<and> lastPushTime (fst (tick lib w p)) =
         (if fst (snd (tick lib w p)) \<and> fst (snd (push w p)) = None
          then pushedAt p else lastPushTime w)"
proof (intro conjI impI)
  show "fst (fst (checkThreshold lib w p)) \<longleftrightarrow>
            (\<exists>d. ParseDuration lib (thresholdValue w) = Inr d
               \<and> d \<le> Since (checkedAt p) (lastPushTime w)
               \<and> (\<exists>c. pendingCheck p = Inr c \<and> 0 < c))"
    using assms by (rule checkThreshold_time)
next
  assume "valueOrZero (pendingCheck p) \<le> 0"
  then show "\<not> fst (snd (tick lib w p))"
    by (auto simp add: tick_decision checkThreshold_time [OF assms] valueOrZero_def)
next
  show "lastPushTime (fst (tick lib w p)) =
         (if fst (snd (tick lib w p)) \<and> fst (snd (push w p)) = None
          then pushedAt p else lastPushTime w)"
    by (simp add: tick_fst tick_decision push_lastPushTime)
qed

theorem elapsed_time_trigger_witness:
  "thresholdType timeWatcher = ThresholdTime
   \<and> fst (fst (checkThreshold stubLib timeWatcher (countPoll 2)))
   \<and> ParseDuration stubLib (thresholdValue timeWatcher) = Inr (300 * Second)
   \<and> 300 * Second \<le> Since (checkedAt (countPoll 2)) (lastPushTime timeWatcher)
   \<and> lastPushTime (fst (tick stubLib timeWatcher (countPoll 2))) = 401 * Second
   \<and> \<not> fst (snd (tick stubLib timeWatcher (countPoll 0)))
   \<and> lastPushTime (fst (tick stubLib timeWatcher (countPoll 0))) = 0"
proof -
  have k: "thresholdType timeWatcher = ThresholdTime"
    by (simp add: timeWatcher_def)
  have d: "ParseDuration stubLib (thresholdValue timeWatcher) = Inr (300 * Second)"
    by (simp add: timeWatcher_def stubLib_def)
  have s: "300 * Second \<le> Since (checkedAt (countPoll 2)) (lastPushTime timeWatcher)"
    by (simp add: timeWatcher_def countPoll_def Since_def Second_def maxDuration_def
        minDuration_def)
  have c: "pendingCheck (countPoll 2) = Inr 2" "valueOrZero (pendingCheck (countPoll 0)) \<le> 0"
    by (simp_all add: countPoll_def valueOrZero_def)
  have p: "fst (snd (push timeWatcher (countPoll 2))) = None"
    "pushedAt (countPoll 2) = 401 * Second" "lastPushTime timeWatcher = 0"
    by (simp_all add: push_def countPoll_def RepoName_def IsProtected_def demoSys_def
        timeWatcher_def path_eval TrimSuffix_def HasSuffix_def)
  have t2: "fst (snd (tick stubLib timeWatcher (countPoll 2)))
      = fst (fst (checkThreshold stubLib timeWatcher (countPoll 2)))"
    by (rule tick_decision)
  show ?thesis
    using k d s c p t2
      elapsed_time_trigger [OF k, where lib = stubLib and p = "countPoll 2"]
      elapsed_time_trigger [OF k, where lib = stubLib and p = "countPoll 0"]
    by auto
qed

subsection \<open>The commit-count trigger\<close>

text \<open>
  A poll changes nothing of the watcher but \<^verbatim>\<open>lastPushTime\<close>, and under the
  commit-count kind neither the decision nor the events of a poll depend on it.
\<close>

lemma tick_state: "\<exists>x. fst (tick lib w p) = w\<lparr>lastPushTime := x\<rparr>"
proof (cases "fst (tick lib w p) = w")
  case True
  then have "fst (tick lib w p) = w\<lparr>lastPushTime := lastPushTime w\<rparr>" by simp
  then show ?thesis ..
next
  case False
  then have "fst (tick lib w p) = w\<lparr>lastPushTime := pushedAt p\<rparr>"
    by (auto simp add: tick_fst push_def Let_def split: if_splits option.splits)
  then show ?thesis ..
qed

lemma checkThreshold_commits_indep:
  assumes "thresholdType w = ThresholdCommits"
  shows "checkThreshold lib (w\<lparr>lastPushTime := x\<rparr>) p = checkThreshold lib w p"
  using assms by (simp add: checkThreshold_def Let_def split: sum.splits)

lemma push_indep:
  "snd (push (w\<lparr>lastPushTime := x\<rparr>) p) = snd (push w p)"
  by (simp add: push_def Let_def split: option.splits)

lemma tick_commits_indep:
  assumes "thresholdType w = ThresholdCommits"
  shows "snd (tick lib (w\<lparr>lastPushTime := x\<rparr>) p) = snd (tick lib w p)"
proof -
  obtain d reason evs where c: "checkThreshold lib w p = ((d, reason), evs)"
    by (metis surj_pair)
  then have c': "checkThreshold lib (w\<lparr>lastPushTime := x\<rparr>) p = ((d, reason), evs)"
    using assms by (simp add: checkThreshold_commits_indep)
  obtain w1 e1 v1 where p1: "push w p = (w1, e1, v1)"
    by (metis surj_pair)
  obtain w2 e2 v2 where p2: "push (w\<lparr>lastPushTime := x\<rparr>) p = (w2, e2, v2)"
    by (metis surj_pair)
  from p1 p2 push_indep [where w = w and x = x and p = p] have "e2 = e1" "v2 = v1" by simp_all
  then show ?thesis
    by (simp add: tick_def c c' p1 p2 split: option.splits)
qed

lemma watchLoop_commits:
  assumes "thresholdType w = ThresholdCommits"
  shows "snd (watchLoop lib (w\<lparr>lastPushTime := x\<rparr>) (map Tick ps))
      = (map (\<lambda>p. snd (tick lib w p)) ps, False)"
proof (induction ps arbitrary: x)
  case Nil
  then show ?case by simp
next
  case (Cons p ps)
  let ?w0 = "w\<lparr>lastPushTime := x\<rparr>"
  obtain w1 d evs where t: "tick lib ?w0 p = (w1, d, evs)"
    by (metis surj_pair)
  have de: "snd (tick lib w p) = (d, evs)"
    using tick_commits_indep [OF assms, where lib = lib and x = x and p = p] t by simp
  obtain y where "fst (tick lib ?w0 p) = ?w0\<lparr>lastPushTime := y\<rparr>"
    using tick_state [where lib = lib and w = ?w0 and p = p] by auto
  with t have w1: "w1 = w\<lparr>lastPushTime := y\<rparr>" by simp
  have "snd (watchLoop lib w1 (map Tick ps)) = (map (\<lambda>p. snd (tick lib w p)) ps, False)"
    unfolding w1 by (rule Cons.IH)
  then show ?case
    by (cases "watchLoop lib w1 (map Tick ps)") (simp add: t de)
qed

lemma watchLoop_polls:
  assumes "thresholdType w = ThresholdCommits"
  shows "fst (snd (watchLoop lib w (map Tick ps))) = map (\<lambda>p. snd (tick lib w p)) ps"
  using watchLoop_commits [OF assms, where lib = lib and x = "lastPushTime w" and ps = ps]
  by simp

lemma tick_blocked:
  assumes "fst (snd (tick lib w p))"
    and "IsProtected (pollSys p) (protectedRepos p) (fst (RepoName p))"
    and "hasOnError w"
  shows "OnError (ErrRepoProtected (fst (RepoName p))) \<in> set (snd (snd (tick lib w p)))"
proof -
  obtain d reason evs where c: "checkThreshold lib w p = ((d, reason), evs)"
    by (metis surj_pair)
  with assms(1) have d by (simp add: tick_decision)
  with c assms(2,3) show ?thesis
    by (simp add: tick_def push_def Let_def)
qed

text \<open>
  Claim C8 (commit-count trigger).  Let the watcher have the commit-count kind, a value
  that parses as the integer \<open>t\<close> and a positive interval, and let it poll a run in
  which the pending counts read are \<open>cs\<close>.  Then \<^verbatim>\<open>Start\<close> runs its loop, with one
  poll per tick, and at each poll: the watcher decides to publish if and only if the
  count is at least \<open>t\<close>; the publish executor is called, for the watcher's remote and
  branch, if and only if the count is at least \<open>t\<close> and the registry does not block the
  push; and a blocked attempt reaches \<^verbatim>\<open>OnError\<close> when that callback is set.  In
  particular, where the counts stay below \<open>t\<close> before poll \<open>k\<close> and reach \<open>t\<close> at poll
  \<open>k\<close>, poll \<open>k\<close> decides to publish and calls the executor unless the registry blocks
  the push, and no earlier poll decides to publish or calls the executor.
\<close>

theorem commit_count_trigger:
  assumes "thresholdType w = ThresholdCommits" and "Atoi (thresholdValue w) = (t, None)"
    and "0 < interval w" and "map pendingCheck ps = map Inr cs"
  shows "Start lib w (map Tick ps) = Inr (watchLoop lib w (map Tick ps))
    \<and> (let polls = fst (snd (watchLoop lib w (map Tick ps))) in
         length polls = length ps
         \<and> (\<forall>i < length ps.
               fst (polls ! i) = (t \<le> cs ! i)
               \<and> (\<forall>r b. GitPush r b \<in> set (snd (polls ! i)) \<longleftrightarrow>
                     r = remote w \<and> b = branch w \<and> t \<le> cs ! i
                     \<and> \<not> IsProtected (pollSys (ps ! i)) (protectedRepos (ps ! i))
                           (fst (RepoName (ps ! i))))
               \<and> (t \<le> cs ! i
                     \<and> IsProtected (pollSys (ps ! i)) (protectedRepos (ps ! i))
                           (fst (RepoName (ps ! i)))
                     \<and> hasOnError w
                   \<longrightarrow> OnError (ErrRepoProtected (fst (RepoName (ps ! i))))
                         \<in> set (snd (polls ! i))))
         \<and> (\<forall>k < length ps. (\<forall>i < k. cs ! i < t) \<and> t \<le> cs ! k \<longrightarrow>
               fst (polls ! k)
               \<and> (IsProtected (pollSys (ps ! k)) (protectedRepos (ps ! k))
                       (fst (RepoName (ps ! k)))
                   \<or> GitPush (remote w) (branch w) \<in> set (snd (polls ! k)))
               \<and> (\<forall>i < k. \<not> fst (polls ! i) \<and> (\<forall>r b. GitPush r b \<notin> set (snd (polls ! i))))))"
proof -
  let ?polls = "fst (snd (watchLoop lib w (map Tick ps)))"
  have start: "Start lib w (map Tick ps) = Inr (watchLoop lib w (map Tick ps))"
    using assms(3) by (simp add: Start_def)
  have polls: "?polls = map (\<lambda>p. snd (tick lib w p)) ps"
    using assms(1) by (rule watchLoop_polls)
  then have len: "length ?polls = length ps" by simp
  have lcs: "length cs = length ps"
    using assms(4) by (metis length_map)
  have nth: "?polls ! i = snd (tick lib w (ps ! i))" if "i < length ps" for i
    using that by (simp add: polls)
  have cnt: "pendingCheck (ps ! i) = Inr (cs ! i)" if "i < length ps" for i
  proof -
    have "map pendingCheck ps ! i = map Inr cs ! i" by (simp only: assms(4))
    then show ?thesis using that lcs by simp
  qed
  have dec: "fst (?polls ! i) = (t \<le> cs ! i)" if "i < length ps" for i
    using that assms(2)
    by (simp add: nth tick_decision checkThreshold_commits [OF assms(1)] cnt)
  have exe: "GitPush r b \<in> set (snd (?polls ! i)) \<longleftrightarrow>
      r = remote w \<and> b = branch w \<and> t \<le> cs ! i
      \<and> \<not> IsProtected (pollSys (ps ! i)) (protectedRepos (ps ! i)) (fst (RepoName (ps ! i)))"
    if "i < length ps" for i r b
    using that dec [OF that] by (simp add: nth tick_calls_executor)
  have blk: "OnError (ErrRepoProtected (fst (RepoName (ps ! i)))) \<in> set (snd (?polls ! i))"
    if "i < length ps" and "t \<le> cs ! i"
      and "IsProtected (pollSys (ps ! i)) (protectedRepos (ps ! i)) (fst (RepoName (ps ! i)))"
      and "hasOnError w" for i
  proof -
    from that(1,2) have "fst (snd (tick lib w (ps ! i)))"
      using dec [OF that(1)] by (simp add: nth)
    then show ?thesis
      using that by (simp add: nth tick_blocked)
  qed
  have first: "fst (?polls ! k)
      \<and> (IsProtected (pollSys (ps ! k)) (protectedRepos (ps ! k)) (fst (RepoName (ps ! k)))
          \<or> GitPush (remote w) (branch w) \<in> set (snd (?polls ! k)))
      \<and> (\<forall>i < k. \<not> fst (?polls ! i) \<and> (\<forall>r b. GitPush r b \<notin> set (snd (?polls ! i))))"
    if "k < length ps" and "\<forall>i < k. cs ! i < t" and "t \<le> cs ! k" for k
  proof (intro conjI allI impI)
    show "fst (?polls ! k)" using that by (simp add: dec)
  next
    show "IsProtected (pollSys (ps ! k)) (protectedRepos (ps ! k)) (fst (RepoName (ps ! k)))
          \<or> GitPush (remote w) (branch w) \<in> set (snd (?polls ! k))"
      using that(3) by (simp add: exe [OF that(1)])
  next
    fix i assume "i < k"
    with that have i: "i < length ps" and lt: "cs ! i < t" by simp_all
    from lt show "\<not> fst (?polls ! i)" by (simp add: dec [OF i])
  next
    fix i r b assume "i < k"
    with that have i: "i < length ps" and lt: "cs ! i < t" by simp_all
    from lt show "GitPush r b \<notin> set (snd (?polls ! i))" by (simp add: exe [OF i])
  qed
  have each: "\<forall>i < length ps.
        fst (?polls ! i) = (t \<le> cs ! i)
        \<and> (\<forall>r b. GitPush r b \<in> set (snd (?polls ! i)) \<longleftrightarrow>
              r = remote w \<and> b = branch w \<and> t \<le> cs ! i
              \<and> \<not> IsProtected (pollSys (ps ! i)) (protectedRepos (ps ! i))
                    (fst (RepoName (ps ! i))))
        \<and> (t \<le> cs ! i
              \<and> IsProtected (pollSys (ps ! i)) (protectedRepos (ps ! i))
                    (fst (RepoName (ps ! i)))
              \<and> hasOnError w
            \<longrightarrow> OnError (ErrRepoProtected (fst (RepoName (ps ! i))))
                  \<in> set (snd (?polls ! i)))"
  proof (intro allI impI conjI)
    fix i assume i: "i < length ps"
    show "fst (?polls ! i) = (t \<le> cs ! i)" by (rule dec [OF i])
  next
    fix i r b assume i: "i < length ps"
    show "GitPush r b \<in> set (snd (?polls ! i)) \<longleftrightarrow>
        r = remote w \<and> b = branch w \<and> t \<le> cs ! i
        \<and> \<not> IsProtected (pollSys (ps ! i)) (protectedRepos (ps ! i))
              (fst (RepoName (ps ! i)))"
      by (rule exe [OF i])
  next
    fix i assume i: "i < length ps"
      and h: "t \<le> cs ! i
        \<and> IsProtected (pollSys (ps ! i)) (protectedRepos (ps ! i)) (fst (RepoName (ps ! i)))
        \<and> hasOnError w"
    from h have h1: "t \<le> cs ! i"
      and h2: "IsProtected (pollSys (ps ! i)) (protectedRepos (ps ! i))
                 (fst (RepoName (ps ! i)))"
      and h3: "hasOnError w"
      by simp_all
    show "OnError (ErrRepoProtected (fst (RepoName (ps ! i)))) \<in> set (snd (?polls ! i))"
      by (rule blk [OF i h1 h2 h3])
  qed
  have firstk: "\<forall>k < length ps. (\<forall>i < k. cs ! i < t) \<and> t \<le> cs ! k \<longrightarrow>
        fst (?polls ! k)
        \<and> (IsProtected (pollSys (ps ! k)) (protectedRepos (ps ! k))
                (fst (RepoName (ps ! k)))
            \<or> GitPush (remote w) (branch w) \<in> set (snd (?polls ! k)))
        \<and> (\<forall>i < k. \<not> fst (?polls ! i) \<and> (\<forall>r b. GitPush r b \<notin> set (snd (?polls ! i))))"
  proof (intro allI impI)
    fix k assume k: "k < length ps" and h: "(\<forall>i < k. cs ! i < t) \<and> t \<le> cs ! k"
    from h have h1: "\<forall>i < k. cs ! i < t" and h2: "t \<le> cs ! k"
      by simp_all
    show "fst (?polls ! k)
        \<and> (IsProtected (pollSys (ps ! k)) (protectedRepos (ps ! k))
                (fst (RepoName (ps ! k)))
            \<or> GitPush (remote w) (branch w) \<in> set (snd (?polls ! k)))
        \<and> (\<forall>i < k. \<not> fst (?polls ! i) \<and> (\<forall>r b. GitPush r b \<notin> set (snd (?polls ! i))))"
      by (rule first [OF k h1 h2])
  qed
  show ?thesis
    unfolding Let_def by (intro conjI start len each firstk)
qed

theorem commit_count_trigger_witness:
  "thresholdType demoWatcher = ThresholdCommits
   \<and> Atoi (thresholdValue demoWatcher) = (3, None)
   \<and> 0 < interval demoWatcher
   \<and> map pendingCheck [countPoll 1, countPoll 2, countPoll 3] = map Inr [1, 2, 3]
   \<and> Start stubLib demoWatcher (map Tick [countPoll 1, countPoll 2, countPoll 3])
       = Inr (watchLoop stubLib demoWatcher (map Tick [countPoll 1, countPoll 2, countPoll 3]))
   \<and> fst (snd (watchLoop stubLib demoWatcher
        (map Tick [countPoll 1, countPoll 2, countPoll 3])))
       = [(False, []), (False, []),
          (True, [GitPush ''origin'' ''main'', OnPush ''origin'' ''main'' 3])]"
proof -
  have k: "thresholdType demoWatcher = ThresholdCommits"
    by (simp add: demoWatcher_def)
  have a: "Atoi (thresholdValue demoWatcher) = (3, None)"
    by (simp add: demoWatcher_def Atoi_3)
  have i: "0 < interval demoWatcher"
    by (simp add: demoWatcher_def Second_def)
  have c: "map pendingCheck [countPoll 1, countPoll 2, countPoll 3] = map Inr [1, 2, 3]"
    by (simp add: countPoll_def)
  have e: "fst (snd (watchLoop stubLib demoWatcher
        (map Tick [countPoll 1, countPoll 2, countPoll 3])))
       = [(False, []), (False, []),
          (True, [GitPush ''origin'' ''main'', OnPush ''origin'' ''main'' 3])]"
    by (simp add: watchLoop_polls [OF k] Atoi_3 demoWatcher_def countPoll_def
        checkThreshold_def tick_def push_def RepoName_def IsProtected_def valueOrZero_def
        demoSys_def path_eval TrimSuffix_def HasSuffix_def Itoa_def)
  show ?thesis
    using k a i c e commit_count_trigger [OF k a i c, of stubLib] by simp
qed

end
